theory Spec2Isabelle
  imports Main
begin

section \<open>Python strings\<close>

text \<open>
  A Python \<open>str\<close> is a sequence of Unicode code points, and a slice such as
  \<open>title[:-1]\<close> removes one code point, not one byte.  A string is therefore a list
  of code points (natural numbers below \<open>0x110000\<close>); \<open>py\<close> embeds an ASCII
  literal.
\<close>

type_synonym str = "nat list"

definition py :: "string \<Rightarrow> str" where
  "py s = map of_char s"

text \<open>
  \<open>s.encode("utf-8")\<close>: the bytes of every code point, one to four of them.  A lone
  surrogate (\<open>U+D800\<close> to \<open>U+DFFF\<close>) cannot be encoded: the strict encoder raises
  \<open>UnicodeEncodeError\<close> (the value \<open>None\<close>), and the encoder called with
  \<open>"ignore"\<close> drops it, so that \<open>s.encode("utf-8", "ignore").decode("utf-8")\<close> is
  \<open>s\<close> without its surrogates.
\<close>

definition is_surrogate :: "nat \<Rightarrow> bool" where
  "is_surrogate c = (55296 \<le> c \<and> c \<le> 57343)"

definition utf8_char :: "nat \<Rightarrow> nat list" where
  "utf8_char c =
     (if c < 128 then [c]
      else if c < 2048 then [192 + c div 64, 128 + c mod 64]
      else if c < 65536 then [224 + c div 4096, 128 + (c div 64) mod 64, 128 + c mod 64]
      else [240 + c div 262144, 128 + (c div 4096) mod 64, 128 + (c div 64) mod 64,
            128 + c mod 64])"

definition encode_utf8 :: "str \<Rightarrow> nat list option" where
  "encode_utf8 s =
     (if list_ex is_surrogate s then None else Some (concat (map utf8_char s)))"

definition encode_ignore_decode :: "str \<Rightarrow> str" where
  "encode_ignore_decode s = filter (\<lambda>c. \<not> is_surrogate c) s"

text \<open>\<open>x in s\<close> for strings: \<open>x\<close> occurs in \<open>s\<close> as a contiguous substring.\<close>

fun startswith :: "str \<Rightarrow> str \<Rightarrow> bool" where
  "startswith s [] = True"
| "startswith [] (p # ps) = False"
| "startswith (c # s) (p # ps) = (c = p \<and> startswith s ps)"

fun str_in :: "str \<Rightarrow> str \<Rightarrow> bool" where
  "str_in x [] = (x = [])"
| "str_in x (c # s) = (startswith (c # s) x \<or> str_in x s)"

definition endswith :: "str \<Rightarrow> str \<Rightarrow> bool" where
  "endswith s p = startswith (rev s) (rev p)"

section \<open>Errors\<close>

text \<open>
  What ends a call other than a return: \<open>sys.exit(-1)\<close>, and the exceptions that
  nothing in the program catches.  \<open>NoReturn\<close> is the outcome of a call that hangs in
  the length loop of \<open>get_filename\<close>: the world stays as it was when the loop was
  entered.
\<close>

datatype error =
    SysExit int
  | UnicodeEncodeError
  | FormatError
  | HeaderError
  | TypeError
  | NoReturn

section \<open>The filename length loop\<close>

text \<open>
  \<^verbatim>\<open>
    while len(title.encode("utf-8")) > 255 - len(ext.encode("utf-8")):
        title = title[:-1]
  \<close>
  Python's integers are unbounded, so \<open>255 - len(...)\<close> may be negative: the
  comparison is on \<open>int\<close>.  The loop need not end (an extension of more than 255
  bytes keeps the test true at the empty title, which \<open>title[:-1]\<close> leaves empty), so
  the result is an option, \<open>None\<close> for a loop that never returns.
\<close>

partial_function (option) truncate_title :: "str \<Rightarrow> str \<Rightarrow> (error + str) option" where
  "truncate_title title ext =
     (case encode_utf8 title of
        None \<Rightarrow> Some (Inl UnicodeEncodeError)
      | Some tb \<Rightarrow>
          (case encode_utf8 ext of
             None \<Rightarrow> Some (Inl UnicodeEncodeError)
           | Some eb \<Rightarrow>
               if int (length tb) > 255 - int (length eb)
               then truncate_title (butlast title) ext
               else Some (Inr title)))"

declare truncate_title.simps [code]

section \<open>Library functions of Python\<close>

text \<open>
  \<open>str(n)\<close> for an integer: its decimal digits, with a minus sign when negative.
\<close>

fun digits :: "nat \<Rightarrow> str" where
  "digits n = (if n < 10 then [48 + n] else digits (n div 10) @ [48 + n mod 10])"

declare digits.simps [simp del]

definition str_of_int :: "int \<Rightarrow> str" where
  "str_of_int i = (if i < 0 then 45 # digits (nat (- i)) else digits (nat i))"

text \<open>
  \<open>s.rfind(ch)\<close>: the highest index of \<open>ch\<close> in \<open>s\<close>, or \<open>-1\<close>.
\<close>

definition rfind :: "nat \<Rightarrow> str \<Rightarrow> int" where
  "rfind ch s =
     (case filter (\<lambda>i. s ! i = ch) (rev [0..<length s]) of
        [] \<Rightarrow> - 1
      | i # _ \<Rightarrow> int i)"

text \<open>
  \<open>os.path.splitext\<close> of \<open>posixpath\<close>: the extension starts at the last dot of
  the last path component, unless only dots precede it there.
\<close>

definition splitext :: "str \<Rightarrow> str \<times> str" where
  "splitext p =
     (let sepIndex = rfind 47 p; dotIndex = rfind 46 p
      in if dotIndex > sepIndex \<and>
            list_ex (\<lambda>i. p ! i \<noteq> 46) [nat (sepIndex + 1)..<nat dotIndex]
         then (take (nat dotIndex) p, drop (nat dotIndex) p)
         else (p, []))"

text \<open>
  \<open>s.strip()\<close> removes the white space (the characters of \<open>str.isspace\<close>) at both
  ends.
\<close>

definition isspace :: "nat \<Rightarrow> bool" where
  "isspace c =
     ((9 \<le> c \<and> c \<le> 13) \<or> (28 \<le> c \<and> c \<le> 32) \<or> c = 133 \<or> c = 160 \<or> c = 5760 \<or>
      (8192 \<le> c \<and> c \<le> 8202) \<or> c = 8232 \<or> c = 8233 \<or> c = 8239 \<or> c = 8287 \<or>
      c = 12288)"

definition strip :: "str \<Rightarrow> str" where
  "strip s = rev (dropWhile isspace (rev (dropWhile isspace s)))"

text \<open>
  \<open>s.split(sep)\<close> cuts \<open>s\<close> at every occurrence of \<open>sep\<close>, scanning from the left;
  the second argument is the piece read so far.  (An empty separator raises
  \<open>ValueError\<close> in Python; the program passes none.)
\<close>

function split_from :: "str \<Rightarrow> str \<Rightarrow> str \<Rightarrow> str list" where
  "split_from sep cur [] = [cur]"
| "split_from sep cur (c # s) =
     (if sep \<noteq> [] \<and> startswith (c # s) sep
      then cur # split_from sep [] (drop (length sep) (c # s))
      else split_from sep (cur @ [c]) s)"
  by pat_completeness auto
termination
  by (relation "measure (\<lambda>(sep, cur, s). length s)") auto

definition str_split :: "str \<Rightarrow> str \<Rightarrow> str list" where
  "str_split s sep = split_from sep [] s"

section \<open>Tracks and options\<close>

text \<open>
  The fields of \<open>BasicTrack\<close> that the downloader reads.  \<open>created_at\<close> is the
  creation time in whole seconds, \<open>int(track.created_at.timestamp())\<close>.
\<close>

record transcoding =
  protocol :: str
  mime_type :: str
  url :: str

record track =
  track_id :: int
  title :: str
  username :: str
  created_at :: int
  streamable :: bool
  policy :: str
  downloadable :: bool
  has_downloads_left :: bool
  transcodings :: "transcoding list"

record playlist_info =
  pl_author :: str
  pl_title :: str
  pl_tracknumber :: str

text \<open>
  The keyword arguments \<open>**kwargs\<close>, as \<open>main\<close> builds them from the command
  line: a flag is a boolean, \<open>--download-archive\<close> is a file name or \<open>None\<close>.
  The flags \<open>-c\<close> and \<open>--remove\<close> are \<open>c_flag\<close> and \<open>remove_flag\<close>.
\<close>

record kwargs =
  original_name :: bool
  addtofile :: bool
  addtimestamp :: bool
  name_format :: str
  playlist_name_format :: str
  onlymp3 :: bool
  no_original :: bool
  only_original :: bool
  remove_flag :: bool
  force_metadata :: bool
  c_flag :: bool
  overwrite :: bool
  flac :: bool
  extract_artist :: bool
  download_archive :: "str option"

text \<open>Python's truth value of an optional string: \<open>None\<close> and \<open>""\<close> are false.\<close>

definition truthy :: "str option \<Rightarrow> bool" where
  "truthy x = (case x of None \<Rightarrow> False | Some s \<Rightarrow> s \<noteq> [])"

text \<open>
  Three functions come from outside the program and are parameters of the model:
  \<open>sanitize_filename\<close> of the package pathvalidate, the method \<open>str.lower\<close>, and
  \<open>str.format\<close> applied to a name template with the fields of the track, the
  playlist and the timestamp (an unknown placeholder raises).
\<close>

record externals =
  sanitize_filename :: "str \<Rightarrow> str"
  str_lower :: "str \<Rightarrow> str"
  str_format :: "str \<Rightarrow> track \<Rightarrow> playlist_info option \<Rightarrow> str \<Rightarrow> error + str"

section \<open>Composing the file name\<close>

text \<open>
  \<open>get_filename(track, original_filename, aac, playlist_info, **kwargs)\<close>.
  \<open>composed_title\<close> is its part from \<open>username = track.user.username\<close> to the
  name templates, which builds the title before the length loop.  The debug message
  is left out.  The statement
  \<open>original_filename.encode("utf-8", "ignore").decode("utf8")\<close> discards its result
  and cannot raise, so it does nothing.
\<close>

definition composed_title ::
  "externals \<Rightarrow> kwargs \<Rightarrow> track \<Rightarrow> playlist_info option \<Rightarrow> error + str" where
  "composed_title X kw track playlist_info =
     (let title0 = encode_ignore_decode (title track);
          title1 = (if addtofile kw \<and> \<not> str_in (username track) title0
                       \<and> \<not> str_in (py ''-'') title0
                    then username track @ py '' - '' @ title0 else title0);
          timestamp = str_of_int (created_at track);
          title2 = (if addtimestamp kw then timestamp @ py ''_'' @ title1 else title1)
      in if \<not> addtofile kw \<and> \<not> addtimestamp kw
         then (case playlist_info of
                 Some pl \<Rightarrow> str_format X (playlist_name_format kw) track (Some pl) timestamp
               | None \<Rightarrow> str_format X (name_format kw) track None timestamp)
         else Inr title2)"

definition get_filename ::
  "externals \<Rightarrow> kwargs \<Rightarrow> track \<Rightarrow> str option \<Rightarrow> bool \<Rightarrow> playlist_info option
     \<Rightarrow> (error + str) option" where
  "get_filename X kw track original_filename aac playlist_info =
     (if original_name kw \<and> truthy original_filename then Some (Inr (the original_filename))
      else
        case composed_title X kw track playlist_info of
          Inl e \<Rightarrow> Some (Inl e)
        | Inr title' \<Rightarrow>
            let ext0 = (if aac then py ''.m4a'' else py ''.mp3'');
                ext = (case original_filename of Some f \<Rightarrow> snd (splitext f) | None \<Rightarrow> ext0)
            in case truncate_title title' ext of
                 None \<Rightarrow> None
               | Some (Inl e) \<Rightarrow> Some (Inl e)
               | Some (Inr title'') \<Rightarrow>
                   Some (Inr (sanitize_filename X (title'' @ str_lower X ext))))"

section \<open>The world of a run\<close>

text \<open>
  What the program changes and what can be seen of it: the regular files of the working
  directory (by name), the archive files (by name, their text; a missing archive file
  reads as the empty text, since both opening modes \<open>"a"\<close> and \<open>"a+"\<close> create it),
  the global list \<open>fileToKeep\<close>, and the trace of the run: the messages logged at
  level info or above, the requests sent, the files written and removed, the external
  programs run, and a mark at each call of one of the two acquiring functions.  Archive
  files are kept apart from the audio files.
\<close>

datatype msg =
    Downloading str
  | NotStreamable str
  | NotAvailable str
  | DownloadingOriginal
  | NoDownloadLink
  | NoDownloadLeft
  | NoNameFromStream
  | ConnectionClosed
  | Converting
  | FfmpegStderr
  | NoOriginalAvailable str
  | AlreadyDownloaded str
  | ErrorDownloading str
  | Exiting
  | TagError
  | NoTagging
  | Downloaded str
  | AlreadyExists str
  | ExitingRunAgain
  | ArchiveReadError
  | ArchiveWriteError
  | UtimeError

datatype proc = Download_original_file | Download_hls

datatype event =
    Info msg
  | Error msg
  | Call proc
  | GetOriginalLink int
  | HttpGetOriginal
  | ReceiveBody int
  | Move str
  | FfmpegConvert str str
  | Remove str
  | HttpGetManifest str
  | FfmpegRemux str
  | ArchiveAppend str str
  | SetMetadata str
  | Utime str

record world =
  files :: "str set"
  archives :: "str \<Rightarrow> str"
  fileToKeep :: "str list"
  trace :: "event list"

definition emit :: "event list \<Rightarrow> world \<Rightarrow> world" where
  "emit es w = w\<lparr>trace := trace w @ es\<rparr>"

definition isfile :: "world \<Rightarrow> str \<Rightarrow> bool" where
  "isfile w f = (f \<in> files w)"

text \<open>
  \<open>os.remove\<close>.  Every call of it in the program is on a file that exists: it
  follows a test with \<open>os.path.isfile\<close> or the move that has just created the file.
\<close>

definition os_remove :: "str \<Rightarrow> world \<Rightarrow> world" where
  "os_remove f w = emit [Remove f] (w\<lparr>files := files w - {f}\<rparr>)"

text \<open>
  What the surroundings answer during one call of \<open>download_track\<close>: whether the
  service returns a download link, the status of the response, the name that the regular
  expression \<open>filename=(.+)\<close> finds in the content-disposition header (\<open>None\<close> when
  the header is missing or does not match, which raises), the extension that
  \<open>mimetypes.guess_extension\<close> gives for the content type, the content-length header
  as an integer (\<open>None\<close> when it is missing, which raises), the number of bytes
  received, whether each run of ffmpeg leaves its output file, whether it writes to its
  error stream, the address found in the manifest, and which of the guarded calls fail.
\<close>

record env =
  original_url :: bool
  status_code :: nat
  disposition_filename :: "str option"
  guessed_extension :: "str option"
  content_length :: "int option"
  received :: int
  ffmpeg_flac_ok :: bool
  manifest_url :: str
  ffmpeg_hls_ok :: bool
  ffmpeg_stderr :: bool
  set_metadata_raises :: bool
  utime_fails :: bool
  archive_read_fails :: bool
  archive_write_fails :: bool

section \<open>The download archive\<close>

text \<open>
  Reading a text file line by line.  Python opens it with universal newlines: \<open>\r\n\<close>
  and \<open>\r\<close> are read as \<open>\n\<close>.  Each line keeps its \<open>\n\<close>; the last line has
  none when the text does not end with one.
\<close>

fun universal_newlines :: "bool \<Rightarrow> str \<Rightarrow> str" where
  "universal_newlines cr [] = []"
| "universal_newlines cr (c # s) =
     (if c = 13 then 10 # universal_newlines True s
      else if c = 10 \<and> cr then universal_newlines False s
      else c # universal_newlines False s)"

fun lines_from :: "str \<Rightarrow> str \<Rightarrow> str list" where
  "lines_from cur [] = (if cur = [] then [] else [cur])"
| "lines_from cur (c # s) =
     (if c = 10 then (cur @ [c]) # lines_from [] s else lines_from (cur @ [c]) s)"

definition readlines :: "str \<Rightarrow> str list" where
  "readlines text = lines_from [] (universal_newlines False text)"

text \<open>
  \<open>in_download_archive\<close> returns nothing (\<open>None\<close>) when no archive is configured.
  An \<open>IOError\<close> is logged and answered with \<open>False\<close>.
\<close>

definition in_download_archive ::
  "env \<Rightarrow> kwargs \<Rightarrow> track \<Rightarrow> world \<Rightarrow> bool option \<times> world" where
  "in_download_archive env kw track w =
     (if \<not> truthy (download_archive kw) then (None, w)
      else
        let archive_filename = the (download_archive kw)
        in if archive_read_fails env then (Some False, emit [Error ArchiveReadError] w)
           else if list_ex (\<lambda>line. strip line = str_of_int (track_id track))
                     (readlines (archives w archive_filename))
           then (Some True, w)
           else (Some False, w))"

definition record_download_archive :: "env \<Rightarrow> kwargs \<Rightarrow> track \<Rightarrow> world \<Rightarrow> world" where
  "record_download_archive env kw track w =
     (if \<not> truthy (download_archive kw) then w
      else
        let archive_filename = the (download_archive kw)
        in if archive_write_fails env then emit [Error ArchiveWriteError] w
           else emit [ArchiveAppend archive_filename (str_of_int (track_id track))]
                  (w\<lparr>archives := (archives w)
                       (archive_filename :=
                          archives w archive_filename @ str_of_int (track_id track) @ [10])\<rparr>))"

section \<open>The check for an earlier download\<close>

definition can_convert :: "str \<Rightarrow> bool" where
  "can_convert filename =
     (let ext = snd (splitext filename)
      in str_in (py ''wav'') ext \<or> str_in (py ''aif'') ext)"

text \<open>\<open>filename[:-4] + ".flac"\<close>\<close>

definition flac_name :: "str \<Rightarrow> str" where
  "flac_name filename = take (length filename - 4) filename @ py ''.flac''"

text \<open>
  \<open>already_downloaded(track, title, filename, **kwargs)\<close>.  The four \<open>if\<close>
  statements of the source run in their order, each on the world the one before has
  left; \<open>kwargs.get("download_archive") and in_download_archive(...)\<close> reads the archive
  only when one is configured.
\<close>

definition already_downloaded ::
  "env \<Rightarrow> kwargs \<Rightarrow> track \<Rightarrow> str \<Rightarrow> str \<Rightarrow> world \<Rightarrow> (error + bool) \<times> world" where
  "already_downloaded env kw track title' filename w0 =
     (let (a1, w1) =
            (if isfile w0 filename
             then (if overwrite kw then (False, os_remove filename w0) else (True, w0))
             else (False, w0));
          (a2, w2) =
            (if flac kw \<and> can_convert filename \<and> isfile w1 (flac_name filename)
             then (if overwrite kw then (False, os_remove (flac_name filename) w1)
                   else (True, w1))
             else (a1, w1));
          (a3, w3) =
            (if truthy (download_archive kw)
             then (case in_download_archive env kw track w2 of
                     (Some True, w) \<Rightarrow> (True, w)
                   | (_, w) \<Rightarrow> (a2, w))
             else (a2, w2));
          a4 = (if flac kw \<and> can_convert filename \<and> isfile w3 filename then False else a3)
      in if a4
         then (if c_flag kw \<or> remove_flag kw \<or> force_metadata kw then (Inr True, w3)
               else (Inl (SysExit (- 1)),
                     emit [Error (AlreadyExists title'), Error ExitingRunAgain] w3))
         else (Inr False, w3))"

section \<open>Acquiring the audio\<close>

text \<open>
  \<open>get_track_m3u8\<close>: the address of the last HLS transcoding of the wanted kind, then
  the request for its manifest.  Without such a transcoding the function returns
  \<open>None\<close>.
\<close>

definition get_track_m3u8 :: "env \<Rightarrow> track \<Rightarrow> bool \<Rightarrow> world \<Rightarrow> str option \<times> world" where
  "get_track_m3u8 env track aac w =
     (case filter (\<lambda>t. protocol t = py ''hls'' \<and>
                        ((\<not> aac \<and> mime_type t = py ''audio/mpeg'') \<or>
                         (aac \<and> startswith (mime_type t) (py ''audio/mp4''))))
             (rev (transcodings track)) of
        [] \<Rightarrow> (None, w)
      | t # _ \<Rightarrow> (Some (manifest_url env), emit [HttpGetManifest (url t)] w))"

text \<open>
  \<open>download_hls\<close>.  With no address, \<open>subprocess.run\<close> is given \<open>None\<close> among its
  arguments and raises \<open>TypeError\<close>.
\<close>

definition download_hls ::
  "externals \<Rightarrow> env \<Rightarrow> kwargs \<Rightarrow> track \<Rightarrow> str \<Rightarrow> playlist_info option \<Rightarrow> world
     \<Rightarrow> (error + str \<times> bool) \<times> world" where
  "download_hls X env kw track title' playlist_info w0 =
     (let w1 = emit [Call Download_hls] w0;
          aac = (if onlymp3 kw then False
                 else list_ex (\<lambda>t. startswith (mime_type t) (py ''audio/mp4''))
                        (transcodings track))
      in case get_filename X kw track None aac playlist_info of
           None \<Rightarrow> (Inl NoReturn, w1)
         | Some (Inl e) \<Rightarrow> (Inl e, w1)
         | Some (Inr filename) \<Rightarrow>
             (case already_downloaded env kw track title' filename w1 of
                (Inl e, w2) \<Rightarrow> (Inl e, w2)
              | (Inr True, w2) \<Rightarrow> (Inr (filename, True), w2)
              | (Inr False, w2) \<Rightarrow>
                  (case get_track_m3u8 env track aac w2 of
                     (None, w3) \<Rightarrow> (Inl TypeError, w3)
                   | (Some u, w3) \<Rightarrow>
                       let w4 = emit [FfmpegRemux filename]
                                  (if ffmpeg_hls_ok env
                                   then w3\<lparr>files := insert filename (files w3)\<rparr> else w3);
                           w5 = (if ffmpeg_stderr env then emit [Error FfmpegStderr] w4 else w4)
                       in (Inr (filename, False), w5))))"

text \<open>
  \<open>download_original_file\<close>.  The request is sent with \<open>stream=True\<close>: the body
  is read only by the loop over its chunks, after the check for an earlier download.
\<close>

definition download_original_file ::
  "externals \<Rightarrow> env \<Rightarrow> kwargs \<Rightarrow> track \<Rightarrow> str \<Rightarrow> playlist_info option \<Rightarrow> world
     \<Rightarrow> (error + str option \<times> bool) \<times> world" where
  "download_original_file X env kw track title' playlist_info w0 =
     (let w1 = emit [Call Download_original_file, Info DownloadingOriginal,
                     GetOriginalLink (track_id track)] w0
      in if \<not> original_url env then (Inr (None, False), emit [Info NoDownloadLink] w1)
         else
           let w2 = emit [HttpGetOriginal] w1
           in if status_code env = 401 then (Inr (None, False), emit [Info NoDownloadLeft] w2)
              else if status_code env = 404
              then (Inr (None, False), emit [Info NoNameFromStream] w2)
              else
                case disposition_filename env of
                  None \<Rightarrow> (Inl HeaderError, w2)
                | Some d \<Rightarrow>
                    let ext0 = snd (splitext d);
                        ext1 = (if truthy (guessed_extension env)
                                then the (guessed_extension env) else ext0);
                        filename0 = fst (splitext d) @ ext1
                    in case get_filename X kw track (Some filename0) False playlist_info of
                         None \<Rightarrow> (Inl NoReturn, w2)
                       | Some (Inl e) \<Rightarrow> (Inl e, w2)
                       | Some (Inr filename) \<Rightarrow>
                           (case already_downloaded env kw track title' filename w2 of
                              (Inl e, w3) \<Rightarrow> (Inl e, w3)
                            | (Inr True, w3) \<Rightarrow>
                                (Inr (Some (if flac kw \<and> can_convert filename
                                            then flac_name filename else filename), True), w3)
                            | (Inr False, w3) \<Rightarrow>
                                (case content_length env of
                                   None \<Rightarrow> (Inl TypeError, w3)
                                 | Some total_length \<Rightarrow>
                                     let w4 = emit [ReceiveBody (received env)] w3
                                     in if received env \<noteq> total_length
                                        then (Inl (SysExit (- 1)),
                                              emit [Error ConnectionClosed] w4)
                                        else
                                          let w5 = emit [Move filename]
                                                (w4\<lparr>files := insert filename (files w4)\<rparr>)
                                          in if flac kw \<and> can_convert filename
                                             then
                                               let newfilename = flac_name filename;
                                                   w6 = emit [Info Converting,
                                                         FfmpegConvert filename newfilename]
                                                     (if ffmpeg_flac_ok env
                                                      then w5\<lparr>files :=
                                                             insert newfilename (files w5)\<rparr>
                                                      else w5);
                                                   w7 = os_remove filename w6
                                               in (Inr (Some newfilename, False), w7)
                                             else (Inr (Some filename, False), w5))))"

section \<open>Tagging\<close>

text \<open>
  The artist and title tags of \<open>set_metadata\<close> (the statements from
  \<open>track.artist = user.username\<close> to \<open>audio["artist"] = track.artist\<close>): the pair
  (artist, title) written to the file.  The loop tries the dashes in the order of the
  list and stops at the first one that occurs in the title.
\<close>

definition dashes :: "str list" where
  "dashes = [[32, 45, 32], [32, 8722, 32], [32, 8211, 32], [32, 8212, 32], [32, 8213, 32]]"

fun extract_loop :: "str list \<Rightarrow> str \<Rightarrow> str \<Rightarrow> str \<times> str" where
  "extract_loop [] artist title' = (artist, title')"
| "extract_loop (dash # ds) artist title' =
     (if str_in dash title'
      then (let artist_title = str_split title' dash
            in (strip (artist_title ! 0), strip (artist_title ! 1)))
      else extract_loop ds artist title')"

definition set_metadata_artist_title :: "kwargs \<Rightarrow> track \<Rightarrow> str \<times> str" where
  "set_metadata_artist_title kw track =
     (if extract_artist kw then extract_loop dashes (username track) (title track)
      else (username track, title track))"

text \<open>
  The call of \<open>set_metadata\<close> as \<open>download_track\<close> sees it: it is inside
  \<open>try\<close> with a bare \<open>except\<close>, which logs whatever is raised.

  \<open>try_utime\<close> likewise logs a failure.
\<close>

definition try_set_metadata :: "env \<Rightarrow> str \<Rightarrow> world \<Rightarrow> world" where
  "try_set_metadata env filename w =
     (let w1 = emit [SetMetadata filename] w
      in if set_metadata_raises env then emit [Error TagError] w1 else w1)"

definition try_utime :: "env \<Rightarrow> str \<Rightarrow> world \<Rightarrow> world" where
  "try_utime env path w =
     (let w1 = emit [Utime path] w
      in if utime_fails env then emit [Error UtimeError] w1 else w1)"

section \<open>One track\<close>

text \<open>
  \<open>download_track\<close>, in the two parts its comments mark.  \<open>select_source\<close> is the
  part from \<open># Downloadable track\<close> to the call of \<open>download_hls\<close>: it gives the file
  name with the flag \<open>is_already_downloaded\<close>, or \<open>None\<close> when the track is skipped
  for having no original file.  \<open>finish_track\<close> is the rest.
\<close>

definition select_source ::
  "externals \<Rightarrow> env \<Rightarrow> kwargs \<Rightarrow> track \<Rightarrow> str \<Rightarrow> playlist_info option \<Rightarrow> world
     \<Rightarrow> (error + (str \<times> bool) option) \<times> world" where
  "select_source X env kw track title' playlist_info w0 =
     (case (if downloadable track \<and> has_downloads_left track \<and> \<not> onlymp3 kw
               \<and> \<not> no_original kw
            then download_original_file X env kw track title' playlist_info w0
            else (Inr (None, False), w0)) of
        (Inl e, w1) \<Rightarrow> (Inl e, w1)
      | (Inr (Some filename, is_already_downloaded), w1) \<Rightarrow>
          (Inr (Some (filename, is_already_downloaded)), w1)
      | (Inr (None, _), w1) \<Rightarrow>
          if only_original kw
          then (Inr None, emit [Info (NoOriginalAvailable title')] w1)
          else (case download_hls X env kw track title' playlist_info w1 of
                  (Inl e, w2) \<Rightarrow> (Inl e, w2)
                | (Inr r, w2) \<Rightarrow> (Inr (Some r), w2)))"

definition finish_track ::
  "env \<Rightarrow> kwargs \<Rightarrow> track \<Rightarrow> str \<Rightarrow> str \<Rightarrow> bool \<Rightarrow> world \<Rightarrow> (error + unit) \<times> world" where
  "finish_track env kw track title' filename is_already_downloaded w0 =
     (let w1 = (if remove_flag kw then w0\<lparr>fileToKeep := fileToKeep w0 @ [filename]\<rparr> else w0);
          w2 = record_download_archive env kw track w1
      in if is_already_downloaded \<and> \<not> force_metadata kw
         then (Inr (), emit [Info (AlreadyDownloaded title')] w2)
         else if \<not> isfile w2 filename
         then (Inl (SysExit (- 1)), emit [Error (ErrorDownloading filename), Error Exiting] w2)
         else
           let w3 = (if endswith filename (py ''.mp3'') \<or> endswith filename (py ''.flac'')
                        \<or> endswith filename (py ''.m4a'')
                     then try_set_metadata env filename w2
                     else emit [Error NoTagging] w2);
               w4 = try_utime env filename w3
           in (Inr (), emit [Info (Downloaded filename)] w4))"

definition download_track ::
  "externals \<Rightarrow> env \<Rightarrow> kwargs \<Rightarrow> track \<Rightarrow> playlist_info option \<Rightarrow> world
     \<Rightarrow> (error + unit) \<times> world" where
  "download_track X env kw track playlist_info w0 =
     (let title' = encode_ignore_decode (title track);
          w1 = emit [Info (Downloading title')] w0
      in if \<not> streamable track then (Inr (), emit [Error (NotStreamable title')] w1)
         else if policy track = py ''BLOCK'' then (Inr (), emit [Error (NotAvailable title')] w1)
         else
           case select_source X env kw track title' playlist_info w1 of
             (Inl e, w2) \<Rightarrow> (Inl e, w2)
           | (Inr None, w2) \<Rightarrow> (Inr (), w2)
           | (Inr (Some (filename, is_already_downloaded)), w2) \<Rightarrow>
               finish_track env kw track title' filename is_already_downloaded w2)"

section \<open>Instances of the external functions\<close>

text \<open>
  Concrete functions to run the model on examples.  \<open>ascii_lower\<close> is \<open>str.lower\<close>
  on ASCII text.  \<open>format_fields\<close> fills a template whose placeholders are field
  names between braces, and fails on an unknown name or a stray brace.
\<close>

definition ascii_lower :: "str \<Rightarrow> str" where
  "ascii_lower s = map (\<lambda>c. if 65 \<le> c \<and> c \<le> 90 then c + 32 else c) s"

text \<open>
  Modelled from the spec: \<open>sanitize_filename\<close> is imported from the package
  pathvalidate and its code is not part of the sources; the spec says of it that it
  strips or replaces the characters that are illegal on common filesystems.  This
  instance removes the control characters, the two slashes, the colon, the star, the
  question mark, the double quote, the angle brackets and the bar.
\<close>

definition illegal_char :: "nat \<Rightarrow> bool" where
  "illegal_char c = (c < 32 \<or> c \<in> set [92, 47, 58, 42, 63, 34, 60, 62, 124])"

definition strip_illegal :: "str \<Rightarrow> str" where
  "strip_illegal s = filter (\<lambda>c. \<not> illegal_char c) s"

fun format_fields :: "(str \<times> str) list \<Rightarrow> str option \<Rightarrow> str \<Rightarrow> error + str" where
  "format_fields fs None [] = Inr []"
| "format_fields fs (Some n) [] = Inl FormatError"
| "format_fields fs None (c # s) =
     (if c = 123 then format_fields fs (Some []) s
      else if c = 125 then Inl FormatError
      else (case format_fields fs None s of Inl e \<Rightarrow> Inl e | Inr r \<Rightarrow> Inr (c # r)))"
| "format_fields fs (Some n) (c # s) =
     (if c = 125
      then (case map_of fs n of
              None \<Rightarrow> Inl FormatError
            | Some v \<Rightarrow> (case format_fields fs None s of Inl e \<Rightarrow> Inl e | Inr r \<Rightarrow> Inr (v @ r)))
      else format_fields fs (Some (n @ [c])) s)"

definition format_name :: "str \<Rightarrow> track \<Rightarrow> playlist_info option \<Rightarrow> str \<Rightarrow> error + str" where
  "format_name template track playlist timestamp =
     format_fields
       ([(py ''title'', title track), (py ''id'', str_of_int (track_id track)),
         (py ''timestamp'', timestamp)] @
        (case playlist of
           None \<Rightarrow> []
         | Some pl \<Rightarrow>
             [(py ''playlist[author]'', pl_author pl), (py ''playlist[title]'', pl_title pl),
              (py ''playlist[tracknumber]'', pl_tracknumber pl)]))
       None template"

definition externals0 :: externals where
  "externals0 =
     \<lparr>sanitize_filename = strip_illegal, str_lower = ascii_lower, str_format = format_name\<rparr>"

text \<open>Defaults: no flag set, the name templates of the distributed configuration file.\<close>

definition kwargs0 :: kwargs where
  "kwargs0 =
     \<lparr>original_name = False, addtofile = False, addtimestamp = False,
      name_format = py ''{title}'',
      playlist_name_format = py ''{playlist[tracknumber]}_{title}'',
      onlymp3 = False, no_original = False, only_original = False, remove_flag = False,
      force_metadata = False, c_flag = False, overwrite = False, flac = False,
      extract_artist = False, download_archive = None\<rparr>"

definition track0 :: track where
  "track0 =
     \<lparr>track_id = 42, title = py ''Title'', username = py ''Artist'', created_at = 1600000000,
      streamable = True, policy = py ''ALLOW'', downloadable = False,
      has_downloads_left = False,
      transcodings =
        [\<lparr>protocol = py ''hls'', mime_type = py ''audio/mpeg'', url = py ''u''\<rparr>]\<rparr>"

definition env0 :: env where
  "env0 =
     \<lparr>original_url = True, status_code = 200, disposition_filename = Some (py ''song.wav''),
      guessed_extension = None, content_length = Some 1000, received = 1000,
      ffmpeg_flac_ok = True, manifest_url = py ''m'', ffmpeg_hls_ok = True,
      ffmpeg_stderr = False, set_metadata_raises = False, utime_fails = False,
      archive_read_fails = False, archive_write_fails = False\<rparr>"

definition world0 :: world where
  "world0 = \<lparr>files = {}, archives = (\<lambda>f. []), fileToKeep = [], trace = []\<rparr>"

text \<open>
  The options \<open>-c --download-archive a.txt\<close>, and the world that the first download
  of the sample track leaves with them.
\<close>

definition kwargs1 :: kwargs where
  "kwargs1 = kwargs0\<lparr>c_flag := True, download_archive := Some (py ''a.txt'')\<rparr>"


section \<open>Observing a run\<close>

text \<open>
  What the statements below read off a run: whether the archive check finds the id of a
  track, the events a call has added to the trace, the calls of the two acquiring
  functions among them, in their order, and the events that transfer audio (the
  reading of the body of the original file, and the remuxing of the stream by ffmpeg).
\<close>

definition archive_has :: "env \<Rightarrow> kwargs \<Rightarrow> track \<Rightarrow> world \<Rightarrow> bool" where
  "archive_has env kw track w = (fst (in_download_archive env kw track w) = Some True)"

definition new_events :: "world \<Rightarrow> world \<Rightarrow> event list" where
  "new_events w w' = drop (length (trace w)) (trace w')"

fun calls :: "event list \<Rightarrow> proc list" where
  "calls [] = []"
| "calls (Call p # es) = p # calls es"
| "calls (e # es) = calls es"

fun is_download :: "event \<Rightarrow> bool" where
  "is_download (ReceiveBody n) = True"
| "is_download (FfmpegRemux f) = True"
| "is_download e = False"

text \<open>
  The events that are neither a call of an acquiring function, nor a transfer of audio,
  nor about tagging.  A world is \<open>settled\<close> for a track when the archive check finds
  the id of the track and, in flac mode, no file on disk has a convertible extension.
\<close>

fun quiet :: "event \<Rightarrow> bool" where
  "quiet (Call p) = False"
| "quiet (ReceiveBody n) = False"
| "quiet (FfmpegRemux f) = False"
| "quiet (SetMetadata f) = False"
| "quiet (Error NoTagging) = False"
| "quiet e = True"

definition settled :: "env \<Rightarrow> kwargs \<Rightarrow> track \<Rightarrow> world \<Rightarrow> bool" where
  "settled env kw track w =
     (archive_has env kw track w \<and> (flac kw \<longrightarrow> (\<forall>g\<in>files w. \<not> can_convert g)))"

text \<open>
  The names \<open>download_track\<close> tags, and the events \<open>record_download_archive\<close>
  adds to the trace.
\<close>

definition taggable :: "str \<Rightarrow> bool" where
  "taggable filename =
     (endswith filename (py ''.mp3'') \<or> endswith filename (py ''.flac'') \<or>
      endswith filename (py ''.m4a''))"

definition record_events :: "env \<Rightarrow> kwargs \<Rightarrow> track \<Rightarrow> event list" where
  "record_events env kw track =
     (if \<not> truthy (download_archive kw) then []
      else if archive_write_fails env then [Error ArchiveWriteError]
      else [ArchiveAppend (the (download_archive kw)) (str_of_int (track_id track))])"

text \<open>
  The events of the last part of \<open>download_track\<close>, for the file name found, the flag
  \<open>is_already_downloaded\<close>, and whether the file is on disk.
\<close>

definition finish_events ::
  "env \<Rightarrow> kwargs \<Rightarrow> track \<Rightarrow> str \<Rightarrow> str \<Rightarrow> bool \<Rightarrow> bool \<Rightarrow> event list" where
  "finish_events env kw track title' filename is_already_downloaded on_disk =
     record_events env kw track @
     (if is_already_downloaded \<and> \<not> force_metadata kw then [Info (AlreadyDownloaded title')]
      else if \<not> on_disk then [Error (ErrorDownloading filename), Error Exiting]
      else (if taggable filename
            then SetMetadata filename #
                 (if set_metadata_raises env then [Error TagError] else [])
            else [Error NoTagging]) @
           Utime filename # (if utime_fails env then [Error UtimeError] else []) @
           [Info (Downloaded filename)])"

section \<open>Facts about strings\<close>

lemma encode_utf8_Nil: "encode_utf8 [] = Some []"
  by (simp add: encode_utf8_def)

lemma encode_utf8_snoc:
  "encode_utf8 (s @ [c]) =
     (case encode_utf8 s of None \<Rightarrow> None
      | Some b \<Rightarrow> if is_surrogate c then None else Some (b @ utf8_char c))"
  by (simp add: encode_utf8_def)

lemma encode_utf8_ascii:
  "\<forall>c\<in>set s. c < 128 \<Longrightarrow> encode_utf8 s = Some s"
  by (induction s) (auto simp: encode_utf8_def is_surrogate_def utf8_char_def)

lemma encode_utf8_append:
  "encode_utf8 (s @ t) =
     (case encode_utf8 s of None \<Rightarrow> None
      | Some a \<Rightarrow> (case encode_utf8 t of None \<Rightarrow> None | Some b \<Rightarrow> Some (a @ b)))"
  by (simp add: encode_utf8_def)

lemma py_ascii: "\<forall>c\<in>set s. of_char c < (128::nat) \<Longrightarrow> \<forall>c\<in>set (py s). c < 128"
  by (simp add: py_def)

section \<open>The loop returns\<close>

lemma truncate_title_raises_title:
  "encode_utf8 ttl = None \<Longrightarrow> truncate_title ttl ext = Some (Inl UnicodeEncodeError)"
  by (subst truncate_title.simps) simp

lemma truncate_title_raises_ext:
  "encode_utf8 ext = None \<Longrightarrow> truncate_title ttl ext = Some (Inl UnicodeEncodeError)"
  by (subst truncate_title.simps) (simp split: option.splits)

lemma truncate_title_short:
  "encode_utf8 ttl = Some tb \<Longrightarrow> encode_utf8 ext = Some eb \<Longrightarrow>
   length tb + length eb \<le> 255 \<Longrightarrow> truncate_title ttl ext = Some (Inr ttl)"
  by (subst truncate_title.simps) simp

lemma truncate_title_fits:
  assumes "encode_utf8 ext = Some eb" "length eb \<le> 255"
  shows "encode_utf8 ttl = Some tb \<Longrightarrow>
     \<exists>n tb'. truncate_title ttl ext = Some (Inr (take n ttl)) \<and>
        encode_utf8 (take n ttl) = Some tb' \<and> length tb' + length eb \<le> 255"
proof (induction ttl arbitrary: tb rule: rev_induct)
  case Nil
  have "truncate_title [] ext = Some (Inr [])"
    using assms by (subst truncate_title.simps) (simp add: encode_utf8_Nil)
  then show ?case using assms by (simp add: encode_utf8_Nil)
next
  case (snoc c s)
  from snoc.prems obtain sb where sb: "encode_utf8 s = Some sb"
    by (auto simp: encode_utf8_snoc split: option.splits)
  show ?case
  proof (cases "int (length tb) > 255 - int (length eb)")
    case True
    then have "truncate_title (s @ [c]) ext = truncate_title s ext"
      using assms snoc.prems by (subst truncate_title.simps) simp
    moreover from snoc.IH [OF sb] obtain n tb' where
      "truncate_title s ext = Some (Inr (take n s))" "encode_utf8 (take n s) = Some tb'"
      "length tb' + length eb \<le> 255" by blast
    moreover have "take n s = take (min n (length s)) (s @ [c])"
      by (cases "n \<le> length s") (simp_all add: min_def)
    ultimately show ?thesis by metis
  next
    case False
    then have "truncate_title (s @ [c]) ext = Some (Inr (s @ [c]))"
      using assms snoc.prems by (subst truncate_title.simps) simp
    then have "truncate_title (s @ [c]) ext = Some (Inr (take (Suc (length s)) (s @ [c])))"
      by simp
    moreover have "encode_utf8 (take (Suc (length s)) (s @ [c])) = Some tb"
      using snoc.prems by simp
    ultimately show ?thesis using False by (intro exI conjI) (assumption, assumption, linarith)
  qed
qed

lemma truncate_title_returns:
  assumes "\<forall>eb. encode_utf8 ext = Some eb \<longrightarrow> length eb \<le> 255"
  shows "\<exists>r. truncate_title ttl ext = Some r"
proof (cases "encode_utf8 ext")
  case None
  then show ?thesis by (simp add: truncate_title_raises_ext)
next
  case (Some eb)
  show ?thesis
  proof (cases "encode_utf8 ttl")
    case None
    then show ?thesis by (simp add: truncate_title_raises_title)
  next
    case (Some tb)
    with truncate_title_fits [OF \<open>encode_utf8 ext = Some eb\<close>] assms \<open>encode_utf8 ext = Some eb\<close>
    show ?thesis by blast
  qed
qed

lemma truncate_title_ascii:
  assumes "encode_utf8 ext = Some eb" "length eb \<le> 255"
  shows "\<forall>c\<in>set ttl. c < 128 \<Longrightarrow>
     truncate_title ttl ext = Some (Inr (take (255 - length eb) ttl))"
proof (induction ttl rule: rev_induct)
  case Nil
  show ?case using assms by (subst truncate_title.simps) (simp add: encode_utf8_Nil)
next
  case (snoc c s)
  then have enc: "encode_utf8 (s @ [c]) = Some (s @ [c])"
    by (intro encode_utf8_ascii) simp
  show ?case
  proof (cases "length s + 1 + length eb \<le> 255")
    case True
    then show ?thesis using assms enc by (subst truncate_title.simps) simp
  next
    case False
    then have "truncate_title (s @ [c]) ext = truncate_title s ext"
      using assms enc by (subst truncate_title.simps) simp
    then show ?thesis using snoc False by simp
  qed
qed

text \<open>
  C9.  When the extension encodes to at most 255 bytes (or cannot be encoded at all, in
  which case the first test raises), the length loop of \<open>get_filename\<close> returns for
  every ttl.  Whenever the test of the loop holds the ttl is not empty, so the
  step \<open>ttl[:-1]\<close> makes it one character shorter; and at the empty ttl the test
  is false.
\<close>

theorem truncate_title_terminates:
  assumes "\<forall>eb. encode_utf8 ext = Some eb \<longrightarrow> length eb \<le> 255"
  shows "(\<exists>r. truncate_title ttl ext = Some r) \<and>
         (\<forall>tb eb. encode_utf8 ttl = Some tb \<and> encode_utf8 ext = Some eb \<and>
              int (length tb) > 255 - int (length eb)
              \<longrightarrow> length (butlast ttl) + 1 = length ttl) \<and>
         (\<forall>eb. encode_utf8 ext = Some eb
              \<longrightarrow> encode_utf8 [] = Some [] \<and> \<not> int (length ([]::nat list)) > 255 - int (length eb))"
proof (intro conjI allI impI)
  show "\<exists>r. truncate_title ttl ext = Some r"
    using assms by (rule truncate_title_returns)
next
  fix tb eb
  assume h: "encode_utf8 ttl = Some tb \<and> encode_utf8 ext = Some eb \<and>
      int (length tb) > 255 - int (length eb)"
  with assms have "length eb \<le> 255" by blast
  with h have "ttl \<noteq> []" by (auto simp: encode_utf8_Nil)
  then show "length (butlast ttl) + 1 = length ttl" by simp
next
  fix eb assume "encode_utf8 ext = Some eb"
  then show "encode_utf8 [] = Some []" by (simp add: encode_utf8_Nil)
next
  fix eb assume "encode_utf8 ext = Some eb"
  with assms have "length eb \<le> 255" by blast
  then show "\<not> int (length ([]::nat list)) > 255 - int (length eb)" by simp
qed

lemma encode_mp3: "encode_utf8 (py ''.mp3'') = Some [46, 109, 112, 51]"
  by (simp add: encode_utf8_def py_def is_surrogate_def utf8_char_def)

theorem truncate_title_terminates_witness:
  "encode_utf8 (py ''.mp3'') = Some [46, 109, 112, 51] \<and>
   (\<exists>r. truncate_title (replicate 300 65) (py ''.mp3'') = Some r) \<and>
   truncate_title (replicate 300 65) (py ''.mp3'') = Some (Inr (replicate 251 65))"
proof -
  have h: "\<forall>eb. encode_utf8 (py ''.mp3'') = Some eb \<longrightarrow> length eb \<le> 255"
    by (simp add: encode_mp3)
  have "truncate_title (replicate 300 65) (py ''.mp3'') = Some (Inr (replicate 251 65))"
    using truncate_title_ascii [OF encode_mp3, of "replicate 300 65"] by simp
  with truncate_title_terminates [OF h, of "replicate 300 65"] encode_mp3
  show ?thesis by blast
qed

lemma truncate_title_result:
  assumes run: "truncate_title t ext = Some r"
  shows "\<forall>t'. r = Inr t' \<longrightarrow>
        (\<exists>n tb eb. t' = take n t \<and> encode_utf8 t' = Some tb \<and> encode_utf8 ext = Some eb \<and>
           length tb + length eb \<le> 255)"
proof -
  let ?P = "\<lambda>t ext r. \<forall>t'. r = Inr t' \<longrightarrow>
        (\<exists>n tb eb. t' = take n t \<and> encode_utf8 t' = Some tb \<and> encode_utf8 ext = Some eb \<and>
           length tb + length eb \<le> 255)"
  show "?P t ext r"
  proof (rule truncate_title.raw_induct [where P = ?P, OF _ run])
    fix f t ext r
    assume IH: "\<And>a b y. f a b = Some y \<Longrightarrow> ?P a b y"
      and eq: "(case encode_utf8 t of
                  None \<Rightarrow> Some (Inl UnicodeEncodeError)
                | Some tb \<Rightarrow>
                    (case encode_utf8 ext of
                       None \<Rightarrow> Some (Inl UnicodeEncodeError)
                     | Some eb \<Rightarrow>
                         if int (length tb) > 255 - int (length eb)
                         then f (butlast t) ext
                         else Some (Inr t))) = Some r"
    show "?P t ext r"
    proof (intro allI impI)
      fix t' assume r: "r = Inr t'"
      from eq r obtain tb eb where
        tb: "encode_utf8 t = Some tb" and eb: "encode_utf8 ext = Some eb"
        by (auto split: option.splits)
      show "\<exists>n tb eb. t' = take n t \<and> encode_utf8 t' = Some tb \<and>
              encode_utf8 ext = Some eb \<and> length tb + length eb \<le> 255"
      proof (cases "int (length tb) > 255 - int (length eb)")
        case True
        with eq tb eb have "f (butlast t) ext = Some r" by simp
        from IH [OF this] r obtain n tb' eb' where
          "t' = take n (butlast t)" "encode_utf8 t' = Some tb'" "encode_utf8 ext = Some eb'"
          "length tb' + length eb' \<le> 255" by blast
        moreover have "take n (butlast t) = take (min n (length t - 1)) t"
          by (simp add: butlast_conv_take min.commute)
        ultimately show ?thesis by metis
      next
        case False
        with eq tb eb r have "t' = t" by simp
        moreover have "length tb + length eb \<le> 255" using False by linarith
        ultimately show ?thesis using tb eb
          by (intro exI [of _ "length t"] exI [of _ tb] exI [of _ eb]) simp
      qed
    qed
  qed
qed

text \<open>
  C8.  With artist extraction on, the title \<open>A - B - C\<close> gives the artist \<open>A\<close>
  and the title \<open>B\<close>: \<open>split\<close> cuts at every dash and the code keeps the first
  two pieces, so the text after the second dash is lost.
\<close>

theorem set_metadata_artist_title_two_dashes:
  "set_metadata_artist_title (kwargs0\<lparr>extract_artist := True\<rparr>)
     (track0\<lparr>title := py ''A - B - C''\<rparr>) = (py ''A'', py ''B'')"
  by (simp add: set_metadata_artist_title_def kwargs0_def track0_def dashes_def str_split_def
      py_def strip_def isspace_def)

text \<open>
  C5.  With \<open>--original-name\<close> and a non-empty original file name, \<open>get_filename\<close>
  returns that name as it is: whatever \<open>sanitize_filename\<close> is, it is not applied.
\<close>

theorem get_filename_original_name:
  assumes "original_name kw" and "f \<noteq> []"
  shows "get_filename X kw track (Some f) aac playlist = Some (Inr f)"
  using assms by (simp add: get_filename_def truthy_def)

theorem get_filename_original_name_witness:
  "original_name (kwargs0\<lparr>original_name := True\<rparr>) \<and> py ''a/b.wav'' \<noteq> [] \<and>
   get_filename externals0 (kwargs0\<lparr>original_name := True\<rparr>) track0 (Some (py ''a/b.wav''))
     False None = Some (Inr (py ''a/b.wav''))"
  using get_filename_original_name
    [of "kwargs0\<lparr>original_name := True\<rparr>" "py ''a/b.wav''" externals0 track0 False None]
  by (simp add: py_def)

theorem get_filename_original_name_unsanitized:
  "get_filename externals0 (kwargs0\<lparr>original_name := True\<rparr>) track0 (Some (py ''a/b.wav''))
     False None = Some (Inr (py ''a/b.wav'')) \<and>
   sanitize_filename externals0 (py ''a/b.wav'') = py ''ab.wav''"
  by (simp add: get_filename_def truthy_def kwargs0_def externals0_def strip_illegal_def
      illegal_char_def py_def)

lemma encode_utf8_butlast:
  "encode_utf8 s = Some b \<Longrightarrow> \<exists>b'. encode_utf8 (butlast s) = Some b'"
  by (cases s rule: rev_cases) (auto simp: encode_utf8_Nil encode_utf8_snoc split: option.splits if_splits)

lemma truncate_title_Inl:
  assumes run: "truncate_title t ext = Some r"
  shows "\<forall>e. r = Inl e \<longrightarrow> encode_utf8 t = None \<or> encode_utf8 ext = None"
proof -
  let ?P = "\<lambda>t ext r. \<forall>e. r = Inl e \<longrightarrow> encode_utf8 t = None \<or> encode_utf8 ext = None"
  show "?P t ext r"
  proof (rule truncate_title.raw_induct [where P = ?P, OF _ run])
    fix f t ext r
    assume IH: "\<And>a b y. f a b = Some y \<Longrightarrow> ?P a b y"
      and eq: "(case encode_utf8 t of
                  None \<Rightarrow> Some (Inl UnicodeEncodeError)
                | Some tb \<Rightarrow>
                    (case encode_utf8 ext of
                       None \<Rightarrow> Some (Inl UnicodeEncodeError)
                     | Some eb \<Rightarrow>
                         if int (length tb) > 255 - int (length eb)
                         then f (butlast t) ext
                         else Some (Inr t))) = Some r"
    show "?P t ext r"
    proof (intro allI impI)
      fix e assume r: "r = Inl e"
      show "encode_utf8 t = None \<or> encode_utf8 ext = None"
      proof (rule ccontr)
        assume "\<not> (encode_utf8 t = None \<or> encode_utf8 ext = None)"
        then obtain tb eb where tb: "encode_utf8 t = Some tb" and eb: "encode_utf8 ext = Some eb"
          by auto
        with eq r have "f (butlast t) ext = Some r" by (simp split: if_splits)
        from IH [OF this] r eb have "encode_utf8 (butlast t) = None" by simp
        with encode_utf8_butlast [OF tb] show False by simp
      qed
    qed
  qed
qed

lemma truncate_title_hangs:
  assumes "encode_utf8 t = Some tb" "encode_utf8 ext = Some eb" "length eb > 255"
  shows "truncate_title t ext = None"
proof (cases "truncate_title t ext")
  case None
  then show ?thesis .
next
  case (Some r)
  show ?thesis
  proof (cases r)
    case (Inl e)
    with truncate_title_Inl [OF Some] assms show ?thesis by simp
  next
    case (Inr t')
    with truncate_title_result [OF Some] assms show ?thesis by auto
  qed
qed

lemma encode_utf8_filter:
  assumes "encode_utf8 s = Some b"
  shows "\<exists>b'. encode_utf8 (filter P s) = Some b' \<and> length b' \<le> length b"
proof -
  have "length (concat (map utf8_char (filter P s))) \<le> length (concat (map utf8_char s))"
    by (induction s) auto
  moreover have "\<not> list_ex is_surrogate (filter P s)"
    using assms by (auto simp: encode_utf8_def list_ex_iff split: if_splits)
  ultimately show ?thesis using assms by (auto simp: encode_utf8_def split: if_splits)
qed

text \<open>
  C2.  When the early return for \<open>--original-name\<close> is not taken and
  \<open>get_filename\<close> returns a name, that name is \<open>sanitize_filename\<close> applied to a
  prefix of the composed title followed by the lowercased extension, and the prefix and
  the extension encode to at most 255 bytes together.  So if lowercasing keeps the
  byte length of the extension and the sanitizer never lengthens a name, the file name
  has at most 255 bytes.
\<close>

theorem get_filename_length:
  assumes "\<not> (original_name kw \<and> truthy original_filename)"
    and "get_filename X kw track original_filename aac playlist = Some (Inr filename)"
    and "ext = (case original_filename of
                  Some f \<Rightarrow> snd (splitext f)
                | None \<Rightarrow> if aac then py ''.m4a'' else py ''.mp3'')"
  shows "\<exists>t n tb eb.
           composed_title X kw track playlist = Inr t \<and>
           filename = sanitize_filename X (take n t @ str_lower X ext) \<and>
           encode_utf8 (take n t) = Some tb \<and> encode_utf8 ext = Some eb \<and>
           length tb + length eb \<le> 255 \<and>
           ((\<forall>s b. encode_utf8 s = Some b \<longrightarrow>
                (\<exists>b'. encode_utf8 (sanitize_filename X s) = Some b' \<and> length b' \<le> length b)) \<and>
            (\<exists>lb. encode_utf8 (str_lower X ext) = Some lb \<and> length lb = length eb)
            \<longrightarrow> (\<exists>fb. encode_utf8 filename = Some fb \<and> length fb \<le> 255))"
proof -
  from assms(1) have h: "(original_name kw \<and> truthy original_filename) = False" by simp
  obtain t where t: "composed_title X kw track playlist = Inr t"
    using assms(2) by (cases "composed_title X kw track playlist") (auto simp: get_filename_def h)
  have gf: "get_filename X kw track original_filename aac playlist =
      (case truncate_title t ext of
         None \<Rightarrow> None
       | Some (Inl e) \<Rightarrow> Some (Inl e)
       | Some (Inr t') \<Rightarrow> Some (Inr (sanitize_filename X (t' @ str_lower X ext))))"
    by (simp add: get_filename_def h t Let_def assms(3) cong: option.case_cong sum.case_cong)
  obtain t' where run: "truncate_title t ext = Some (Inr t')"
    and fn: "filename = sanitize_filename X (t' @ str_lower X ext)"
  proof (cases "truncate_title t ext")
    case None
    with assms(2) show ?thesis unfolding gf by simp
  next
    case (Some r)
    with assms(2) that show ?thesis unfolding gf by (cases r) auto
  qed
  from truncate_title_result [OF run] obtain n tb eb where
    n: "t' = take n t" and tb: "encode_utf8 t' = Some tb" and eb: "encode_utf8 ext = Some eb"
    and le: "length tb + length eb \<le> 255" by blast
  have "\<exists>fb. encode_utf8 filename = Some fb \<and> length fb \<le> 255"
    if san: "\<forall>s b. encode_utf8 s = Some b \<longrightarrow>
                (\<exists>b'. encode_utf8 (sanitize_filename X s) = Some b' \<and> length b' \<le> length b)"
      and low: "\<exists>lb. encode_utf8 (str_lower X ext) = Some lb \<and> length lb = length eb"
  proof -
    from low obtain lb where lb: "encode_utf8 (str_lower X ext) = Some lb" "length lb = length eb"
      by blast
    with tb have "encode_utf8 (t' @ str_lower X ext) = Some (tb @ lb)"
      by (simp add: encode_utf8_append)
    with san obtain fb where "encode_utf8 (sanitize_filename X (t' @ str_lower X ext)) = Some fb"
      "length fb \<le> length (tb @ lb)" by blast
    with fn lb le show ?thesis by auto
  qed
  with t fn n tb eb le show ?thesis by blast
qed

lemma externals0_simps [simp]:
  "sanitize_filename externals0 = strip_illegal"
  "str_lower externals0 = ascii_lower"
  "str_format externals0 = format_name"
  by (simp_all add: externals0_def)

lemma kwargs0_simps [simp]:
  "original_name kwargs0 = False" "addtofile kwargs0 = False" "addtimestamp kwargs0 = False"
  "name_format kwargs0 = py ''{title}''"
  "playlist_name_format kwargs0 = py ''{playlist[tracknumber]}_{title}''"
  "onlymp3 kwargs0 = False" "no_original kwargs0 = False" "only_original kwargs0 = False"
  "remove_flag kwargs0 = False" "force_metadata kwargs0 = False" "c_flag kwargs0 = False"
  "overwrite kwargs0 = False" "flac kwargs0 = False" "extract_artist kwargs0 = False"
  "download_archive kwargs0 = None"
  by (simp_all add: kwargs0_def)

lemma track0_simps [simp]:
  "track_id track0 = 42" "title track0 = py ''Title''" "username track0 = py ''Artist''"
  "created_at track0 = 1600000000" "streamable track0 = True" "policy track0 = py ''ALLOW''"
  "downloadable track0 = False" "has_downloads_left track0 = False"
  "transcodings track0 =
     [\<lparr>protocol = py ''hls'', mime_type = py ''audio/mpeg'', url = py ''u''\<rparr>]"
  by (simp_all add: track0_def)

lemma env0_simps [simp]:
  "original_url env0 = True" "status_code env0 = 200"
  "disposition_filename env0 = Some (py ''song.wav'')" "guessed_extension env0 = None"
  "content_length env0 = Some 1000" "received env0 = 1000" "ffmpeg_flac_ok env0 = True"
  "manifest_url env0 = py ''m''" "ffmpeg_hls_ok env0 = True" "ffmpeg_stderr env0 = False"
  "set_metadata_raises env0 = False" "utime_fails env0 = False"
  "archive_read_fails env0 = False" "archive_write_fails env0 = False"
  by (simp_all add: env0_def)

lemma world0_simps [simp]:
  "files world0 = {}" "archives world0 = (\<lambda>f. [])" "fileToKeep world0 = []" "trace world0 = []"
  by (simp_all add: world0_def)

lemma composed_title_A300:
  "composed_title externals0 kwargs0 (track0\<lparr>title := replicate 300 65\<rparr>) None
     = Inr (replicate 300 65)"
  by (simp add: composed_title_def format_name_def encode_ignore_decode_def is_surrogate_def
      py_def Let_def)

lemma get_filename_A300:
  "get_filename externals0 kwargs0 (track0\<lparr>title := replicate 300 65\<rparr>) None False None
     = Some (Inr (replicate 251 65 @ py ''.mp3''))"
proof -
  have "truncate_title (replicate 300 65) (py ''.mp3'') = Some (Inr (replicate 251 65))"
    using truncate_title_ascii [OF encode_mp3, of "replicate 300 65"] by simp
  moreover have "strip_illegal (replicate 251 65 @ ascii_lower (py ''.mp3''))
      = replicate 251 65 @ py ''.mp3''"
    by (simp add: strip_illegal_def ascii_lower_def illegal_char_def py_def)
  ultimately show ?thesis
    by (simp add: get_filename_def composed_title_A300 truthy_def)
qed

theorem get_filename_length_witness:
  "get_filename externals0 kwargs0 (track0\<lparr>title := replicate 300 65\<rparr>) None False None
     = Some (Inr (replicate 251 65 @ py ''.mp3'')) \<and>
   encode_utf8 (replicate 251 65 @ py ''.mp3'') = Some (replicate 251 65 @ py ''.mp3'') \<and>
   length (replicate 251 65 @ py ''.mp3'') = 255 \<and>
   (\<exists>fb. encode_utf8 (replicate 251 65 @ py ''.mp3'') = Some fb \<and> length fb \<le> 255)"
proof -
  have enc: "encode_utf8 (replicate 251 65 @ py ''.mp3'') = Some (replicate 251 65 @ py ''.mp3'')"
    by (rule encode_utf8_ascii) (auto simp: py_def)
  have san: "\<forall>s b. encode_utf8 s = Some b \<longrightarrow>
      (\<exists>b'. encode_utf8 (sanitize_filename externals0 s) = Some b' \<and> length b' \<le> length b)"
    by (simp add: strip_illegal_def encode_utf8_filter)
  have low: "\<exists>lb. encode_utf8 (str_lower externals0 (py ''.mp3'')) = Some lb \<and>
      length lb = length [46, 109, 112, 51::nat]"
    by (simp add: ascii_lower_def py_def encode_utf8_def is_surrogate_def utf8_char_def)
  have no: "\<not> (original_name kwargs0 \<and> truthy None)"
    by (simp add: truthy_def)
  from get_filename_length [OF no get_filename_A300, of "py ''.mp3''"] san low encode_mp3
  have "\<exists>fb. encode_utf8 (replicate 251 65 @ py ''.mp3'') = Some fb \<and> length fb \<le> 255"
    by auto
  with get_filename_A300 enc show ?thesis by (simp add: py_def)
qed

theorem get_filename_original_name_long:
  "get_filename externals0 (kwargs0\<lparr>original_name := True\<rparr>) track0
     (Some (replicate 300 65 @ py ''.wav'')) False None
     = Some (Inr (replicate 300 65 @ py ''.wav'')) \<and>
   encode_utf8 (replicate 300 65 @ py ''.wav'') = Some (replicate 300 65 @ py ''.wav'') \<and>
   length (replicate 300 65 @ py ''.wav'') = 304"
proof -
  have "encode_utf8 (replicate 300 65 @ py ''.wav'') = Some (replicate 300 65 @ py ''.wav'')"
    by (rule encode_utf8_ascii) (auto simp: py_def)
  then show ?thesis
    by (simp add: get_filename_def truthy_def py_def)
qed

section \<open>Decimal numerals\<close>

lemma digits_range: "c \<in> set (digits n) \<Longrightarrow> 48 \<le> c \<and> c \<le> 57"
proof (induction n arbitrary: c rule: digits.induct)
  case (1 n)
  show ?case
  proof (cases "n < 10")
    case True
    with "1.prems" show ?thesis by (simp add: digits.simps [of n])
  next
    case False
    with "1.prems" have "c \<in> set (digits (n div 10)) \<or> c = 48 + n mod 10"
      by (auto simp: digits.simps [of n])
    then show ?thesis
    proof
      assume "c \<in> set (digits (n div 10))"
      with "1.IH" False show ?thesis by blast
    next
      assume "c = 48 + n mod 10"
      moreover have "n mod 10 < 10" by simp
      ultimately show ?thesis by linarith
    qed
  qed
qed

lemma digits_not_Nil: "digits n \<noteq> []"
  by (subst digits.simps) simp

lemma digits_length_one: "length (digits n) = Suc 0 \<longleftrightarrow> n < 10"
proof (cases "n < 10")
  case True
  then show ?thesis by (simp add: digits.simps [of n])
next
  case False
  moreover have "length (digits (n div 10)) \<noteq> 0" by (simp add: digits_not_Nil)
  ultimately show ?thesis by (simp add: digits.simps [of n])
qed

lemma digits_inj: "digits n = digits m \<Longrightarrow> n = m"
proof (induction n arbitrary: m rule: digits.induct)
  case (1 n)
  show ?case
  proof (cases "n < 10")
    case True
    then have "length (digits n) = Suc 0" by (simp add: digits_length_one)
    with "1.prems" have m: "m < 10" by (simp add: digits_length_one)
    from "1.prems" True m show ?thesis by (simp add: digits.simps [of n] digits.simps [of m])
  next
    case False
    then have "length (digits n) \<noteq> Suc 0" by (simp add: digits_length_one)
    with "1.prems" have m: "\<not> m < 10" by (simp add: digits_length_one)
    from "1.prems" False m have "digits (n div 10) = digits (m div 10)" "n mod 10 = m mod 10"
      by (simp_all add: digits.simps [of n] digits.simps [of m])
    with "1.IH" False have "n div 10 = m div 10" by blast
    with \<open>n mod 10 = m mod 10\<close> show ?thesis by (metis div_mult_mod_eq)
  qed
qed

lemma str_of_int_inj: "str_of_int i = str_of_int j \<Longrightarrow> i = j"
proof -
  have neg: "hd (digits n) \<noteq> 45" for n
    using digits_range [of "hd (digits n)" n] digits_not_Nil [of n] by (auto dest: hd_in_set)
  assume eq: "str_of_int i = str_of_int j"
  show ?thesis
  proof (cases "i < 0"; cases "j < 0")
    assume "i < 0" "j < 0"
    with eq have "nat (- i) = nat (- j)" by (auto simp: str_of_int_def dest: digits_inj)
    with \<open>i < 0\<close> \<open>j < 0\<close> show ?thesis by linarith
  next
    assume "i < 0" "\<not> j < 0"
    with eq have "45 # digits (nat (- i)) = digits (nat j)" by (simp add: str_of_int_def)
    then have "hd (digits (nat j)) = 45" by (metis list.sel(1))
    with neg show ?thesis by blast
  next
    assume "\<not> i < 0" "j < 0"
    with eq have "digits (nat i) = 45 # digits (nat (- j))" by (simp add: str_of_int_def)
    then have "hd (digits (nat i)) = 45" by (metis list.sel(1))
    with neg show ?thesis by blast
  next
    assume "\<not> i < 0" "\<not> j < 0"
    with eq have "nat i = nat j" by (auto simp: str_of_int_def dest: digits_inj)
    with \<open>\<not> i < 0\<close> \<open>\<not> j < 0\<close> show ?thesis by linarith
  qed
qed

lemma str_of_int_chars: "c \<in> set (str_of_int i) \<Longrightarrow> c = 45 \<or> (48 \<le> c \<and> c \<le> 57)"
  by (auto simp: str_of_int_def dest: digits_range split: if_splits)

lemma str_of_int_not_Nil: "str_of_int i \<noteq> []"
  by (simp add: str_of_int_def digits_not_Nil)

section \<open>Reading the archive\<close>

lemma universal_newlines_id: "13 \<notin> set s \<Longrightarrow> universal_newlines False s = s"
  by (induction s) auto

lemma lines_from_line:
  "10 \<notin> set l \<Longrightarrow> lines_from cur (l @ 10 # rest) = (cur @ l @ [10]) # lines_from [] rest"
  by (induction l arbitrary: cur) auto

lemma lines_from_concat:
  "\<forall>l\<in>set ls. 10 \<notin> set l \<Longrightarrow>
   lines_from [] (concat (map (\<lambda>l. l @ [10]) ls)) = map (\<lambda>l. l @ [10]) ls"
  by (induction ls) (simp_all add: lines_from_line)

lemma strip_line:
  assumes "\<forall>c\<in>set s. \<not> isspace c"
  shows "strip (s @ [10]) = s"
proof (cases s)
  case Nil
  then show ?thesis by (simp add: strip_def isspace_def)
next
  case (Cons c s')
  have sp: "isspace 10" by (simp add: isspace_def)
  have "dropWhile isspace (s @ [10]) = s @ [10]"
    using assms Cons by simp
  moreover have "dropWhile isspace (rev s) = rev s"
  proof (cases "rev s")
    case Nil
    then show ?thesis by simp
  next
    case (Cons d r)
    then have "d \<in> set s" by (metis list.set_intros(1) set_rev)
    with assms Cons show ?thesis by simp
  qed
  ultimately show ?thesis using sp by (simp add: strip_def)
qed

lemma not_isspace_str_of_int: "c \<in> set (str_of_int i) \<Longrightarrow> \<not> isspace c"
  by (drule str_of_int_chars) (auto simp: isspace_def)

lemma readlines_ids:
  "readlines (concat (map (\<lambda>i. str_of_int i @ [10]) ids)) = map (\<lambda>i. str_of_int i @ [10]) ids"
proof -
  let ?ls = "map str_of_int ids"
  have eq: "map (\<lambda>i. str_of_int i @ [10]) ids = map (\<lambda>l. l @ [10]) ?ls"
    by (simp add: comp_def)
  have "13 \<notin> set (concat (map (\<lambda>l. l @ [10]) ?ls))"
    by (auto dest: str_of_int_chars)
  then have "universal_newlines False (concat (map (\<lambda>l. l @ [10]) ?ls))
      = concat (map (\<lambda>l. l @ [10]) ?ls)"
    by (rule universal_newlines_id)
  moreover have "\<forall>l\<in>set ?ls. 10 \<notin> set l"
    by (auto dest: str_of_int_chars)
  then have "lines_from [] (concat (map (\<lambda>l. l @ [10]) ?ls)) = map (\<lambda>l. l @ [10]) ?ls"
    by (rule lines_from_concat)
  ultimately show ?thesis unfolding readlines_def eq by simp
qed

lemma archive_member_ids:
  "list_ex (\<lambda>line. strip line = str_of_int k)
     (readlines (concat (map (\<lambda>i. str_of_int i @ [10]) ids))) \<longleftrightarrow> k \<in> set ids"
  by (auto simp: readlines_ids list_ex_iff strip_line not_isspace_str_of_int dest: str_of_int_inj)

lemma record_download_archive_ids:
  assumes "download_archive kw = Some f" "f \<noteq> []" "\<not> archive_write_fails env"
    and "archives w f = concat (map (\<lambda>i. str_of_int i @ [10]) ids)"
  shows "archives (record_download_archive env kw t w) f
     = concat (map (\<lambda>i. str_of_int i @ [10]) (ids @ [track_id t]))"
  using assms by (simp add: record_download_archive_def truthy_def emit_def)

lemma in_download_archive_ids:
  assumes "download_archive kw = Some f" "f \<noteq> []" "\<not> archive_read_fails env"
    and "archives w f = concat (map (\<lambda>i. str_of_int i @ [10]) ids)"
  shows "in_download_archive env kw t w = (Some (track_id t \<in> set ids), w)"
  using assms by (simp add: in_download_archive_def truthy_def archive_member_ids)

section \<open>Appending a line to an archive\<close>

lemma universal_newlines_append:
  "universal_newlines cr (a @ b) =
     universal_newlines cr a @ universal_newlines (if a = [] then cr else last a = 13) b"
  by (induction a arbitrary: cr) auto

lemma universal_newlines_Nil_iff:
  "a \<noteq> [] \<Longrightarrow> universal_newlines False a \<noteq> []"
  by (cases a) auto

lemma universal_newlines_last:
  "a \<noteq> [] \<Longrightarrow> last a = 10 \<Longrightarrow> universal_newlines cr a \<noteq> [] \<Longrightarrow>
   last (universal_newlines cr a) = 10"
  by (induction a arbitrary: cr) (auto simp: universal_newlines_Nil_iff split: if_splits)

lemma lines_from_append:
  "u \<noteq> [] \<Longrightarrow> last u = 10 \<Longrightarrow> lines_from cur (u @ v) = lines_from cur u @ lines_from [] v"
  by (induction u arbitrary: cur) (auto split: if_splits)

lemma readlines_append_line:
  assumes "a = [] \<or> last a = 10" and "10 \<notin> set s" and "13 \<notin> set s"
  shows "readlines (a @ s @ [10]) = readlines a @ [s @ [10]]"
proof (cases "a = []")
  case True
  with assms show ?thesis
    using lines_from_line [of s "[]" "[]"]
    by (simp add: readlines_def universal_newlines_id)
next
  case False
  with assms have l: "last a = 10" by simp
  let ?u = "universal_newlines False a"
  have u: "?u \<noteq> []" "last ?u = 10"
    using False l by (simp_all add: universal_newlines_Nil_iff universal_newlines_last)
  have "universal_newlines False (a @ (s @ [10])) = ?u @ universal_newlines False (s @ [10])"
    using False l by (subst universal_newlines_append) simp
  moreover have "universal_newlines False (s @ [10]) = s @ [10]"
    using assms by (intro universal_newlines_id) simp
  ultimately have "universal_newlines False (a @ s @ [10]) = ?u @ s @ [10]" by simp
  then show ?thesis
    using u assms lines_from_line [of s "[]" "[]"]
    by (simp add: readlines_def lines_from_append)
qed

lemma in_download_archive_after_record:
  assumes "download_archive kw = Some f" and "f \<noteq> []"
    and "\<not> archive_read_fails env" and "\<not> archive_write_fails env'"
    and "archives w f = [] \<or> last (archives w f) = 10"
  shows "fst (in_download_archive env kw t' (record_download_archive env' kw t w)) =
           Some (track_id t' = track_id t \<or> archive_has env kw t' w)"
proof -
  let ?s = "str_of_int (track_id t)"
  have s: "10 \<notin> set ?s" "13 \<notin> set ?s" by (auto dest: str_of_int_chars)
  have a: "archives (record_download_archive env' kw t w) f = archives w f @ ?s @ [10]"
    using assms by (simp add: record_download_archive_def truthy_def emit_def)
  have "readlines (archives w f @ ?s @ [10]) = readlines (archives w f) @ [?s @ [10]]"
    using assms(5) s by (rule readlines_append_line)
  moreover have "strip (?s @ [10]) = ?s"
    by (rule strip_line) (simp add: not_isspace_str_of_int)
  moreover have "(?s = str_of_int (track_id t')) = (track_id t' = track_id t)"
    by (auto dest: str_of_int_inj)
  ultimately show ?thesis
    using assms(1-3) a
    by (auto simp: in_download_archive_def archive_has_def truthy_def Let_def)
qed

text \<open>
  C6.  With an archive configured, no I/O error, and an archive file that is empty (or
  missing) or ends with a newline: after \<open>record_download_archive\<close> has appended
  the id of a track \<open>t\<close>, the check answers \<open>True\<close> for \<open>t\<close>; for any track
  \<open>t'\<close> it answers \<open>True\<close> exactly when \<open>t'\<close> has the id just written or a line
  of the file held the id of \<open>t'\<close> before.  So when the file holds only what earlier
  calls of \<open>record_download_archive\<close> have written, one line for each id of
  \<open>ids\<close>, the check answers \<open>False\<close> for an id that was never written.
\<close>

theorem archive_round_trip:
  assumes "download_archive kw = Some f" and "f \<noteq> []"
    and "\<not> archive_read_fails env" and "\<not> archive_write_fails env'"
    and "archives w f = [] \<or> last (archives w f) = 10"
  shows "fst (in_download_archive env kw t (record_download_archive env' kw t w)) = Some True \<and>
         fst (in_download_archive env kw t' (record_download_archive env' kw t w))
           = Some (track_id t' = track_id t \<or> archive_has env kw t' w) \<and>
         (archives w f = concat (map (\<lambda>i. str_of_int i @ [10]) ids) \<longrightarrow>
            fst (in_download_archive env kw t' (record_download_archive env' kw t w))
              = Some (track_id t' = track_id t \<or> track_id t' \<in> set ids))"
proof -
  have r: "fst (in_download_archive env kw u (record_download_archive env' kw t w)) =
      Some (track_id u = track_id t \<or> archive_has env kw u w)" for u
    using assms by (rule in_download_archive_after_record)
  have "archive_has env kw t' w = (track_id t' \<in> set ids)"
    if "archives w f = concat (map (\<lambda>i. str_of_int i @ [10]) ids)"
    using in_download_archive_ids [OF assms(1-3) that, of t'] by (simp add: archive_has_def)
  with r [of t] r [of t'] show ?thesis by simp
qed

theorem archive_round_trip_witness:
  "download_archive (kwargs0\<lparr>download_archive := Some (py ''a.txt'')\<rparr>) = Some (py ''a.txt'') \<and>
   py ''a.txt'' \<noteq> [] \<and> \<not> archive_read_fails env0 \<and> \<not> archive_write_fails env0 \<and>
   last (archives (world0\<lparr>archives := (\<lambda>f. if f = py ''a.txt'' then py ''7'' @ [10] else [])\<rparr>)
     (py ''a.txt'')) = 10 \<and>
   fst (in_download_archive env0 (kwargs0\<lparr>download_archive := Some (py ''a.txt'')\<rparr>) track0
     (record_download_archive env0 (kwargs0\<lparr>download_archive := Some (py ''a.txt'')\<rparr>) track0
        (world0\<lparr>archives := (\<lambda>f. if f = py ''a.txt'' then py ''7'' @ [10] else [])\<rparr>)))
     = Some True \<and>
   fst (in_download_archive env0 (kwargs0\<lparr>download_archive := Some (py ''a.txt'')\<rparr>)
     (track0\<lparr>track_id := 5\<rparr>)
     (record_download_archive env0 (kwargs0\<lparr>download_archive := Some (py ''a.txt'')\<rparr>) track0
        (world0\<lparr>archives := (\<lambda>f. if f = py ''a.txt'' then py ''7'' @ [10] else [])\<rparr>)))
     = Some False"
proof -
  let ?kw = "kwargs0\<lparr>download_archive := Some (py ''a.txt'')\<rparr>"
  let ?w = "world0\<lparr>archives := (\<lambda>f. if f = py ''a.txt'' then py ''7'' @ [10] else [])\<rparr>"
  have 1: "download_archive ?kw = Some (py ''a.txt'')" by simp
  have 2: "py ''a.txt'' \<noteq> []" by (simp add: py_def)
  have 3: "\<not> archive_read_fails env0" "\<not> archive_write_fails env0" by simp_all
  have 4: "archives ?w (py ''a.txt'') = concat (map (\<lambda>i. str_of_int i @ [10]) [7])"
    by (simp add: str_of_int_def digits.simps py_def)
  have 5: "last (archives ?w (py ''a.txt'')) = 10" by simp
  then have 6: "archives ?w (py ''a.txt'') = [] \<or> last (archives ?w (py ''a.txt'')) = 10" ..
  note rt = archive_round_trip [OF 1 2 3 6, of track0 "track0\<lparr>track_id := 5\<rparr>" "[7]"]
  from rt have a: "fst (in_download_archive env0 ?kw track0
      (record_download_archive env0 ?kw track0 ?w)) = Some True" by blast
  from rt 4 have "fst (in_download_archive env0 ?kw (track0\<lparr>track_id := 5\<rparr>)
      (record_download_archive env0 ?kw track0 ?w))
      = Some (track_id (track0\<lparr>track_id := 5\<rparr>) = track_id track0 \<or>
              track_id (track0\<lparr>track_id := 5\<rparr>) \<in> set [7])" by blast
  then have b: "fst (in_download_archive env0 ?kw (track0\<lparr>track_id := 5\<rparr>)
      (record_download_archive env0 ?kw track0 ?w)) = Some False" by simp
  from a b 1 2 3 5 show ?thesis by blast
qed

theorem archive_no_final_newline:
  "archives (world0\<lparr>archives := (\<lambda>f. if f = py ''a.txt'' then py ''7'' else [])\<rparr>) (py ''a.txt'')
     = py ''7'' \<and>
   archives (record_download_archive env0 (kwargs0\<lparr>download_archive := Some (py ''a.txt'')\<rparr>)
       track0 (world0\<lparr>archives := (\<lambda>f. if f = py ''a.txt'' then py ''7'' else [])\<rparr>))
     (py ''a.txt'') = py ''742'' @ [10] \<and>
   fst (in_download_archive env0 (kwargs0\<lparr>download_archive := Some (py ''a.txt'')\<rparr>) track0
     (record_download_archive env0 (kwargs0\<lparr>download_archive := Some (py ''a.txt'')\<rparr>) track0
        (world0\<lparr>archives := (\<lambda>f. if f = py ''a.txt'' then py ''7'' else [])\<rparr>)))
     = Some False \<and>
   fst (in_download_archive env0 (kwargs0\<lparr>download_archive := Some (py ''a.txt'')\<rparr>)
     (track0\<lparr>track_id := 742\<rparr>)
     (record_download_archive env0 (kwargs0\<lparr>download_archive := Some (py ''a.txt'')\<rparr>) track0
        (world0\<lparr>archives := (\<lambda>f. if f = py ''a.txt'' then py ''7'' else [])\<rparr>)))
     = Some True"
  by (simp add: in_download_archive_def record_download_archive_def truthy_def readlines_def
      strip_def isspace_def str_of_int_def digits.simps py_def Let_def emit_def)

section \<open>The check for an earlier download, in closed form\<close>

lemma flac_name_neq: "flac_name f \<noteq> f"
proof
  assume "flac_name f = f"
  then have "length (flac_name f) = length f" by simp
  then show False by (simp add: flac_name_def py_def)
qed

lemma in_download_archive_world:
  "snd (in_download_archive env kw t w) =
     (if truthy (download_archive kw) \<and> archive_read_fails env
      then emit [Error ArchiveReadError] w else w)"
  by (simp add: in_download_archive_def Let_def)

lemma archive_has_cong:
  "archives w' = archives w \<Longrightarrow> archive_has env kw t w' = archive_has env kw t w"
  by (simp add: archive_has_def in_download_archive_def Let_def)

lemma emit_fields [simp]:
  "files (emit es w) = files w" "archives (emit es w) = archives w"
  "fileToKeep (emit es w) = fileToKeep w" "trace (emit es w) = trace w @ es"
  by (simp_all add: emit_def)

lemma os_remove_fields [simp]:
  "files (os_remove f w) = files w - {f}" "archives (os_remove f w) = archives w"
  "fileToKeep (os_remove f w) = fileToKeep w" "trace (os_remove f w) = trace w @ [Remove f]"
  by (simp_all add: os_remove_def)

lemma in_download_archive_case:
  "(case in_download_archive env kw t w' of (Some True, w) \<Rightarrow> (True, w) | (_, w) \<Rightarrow> (a, w))
      = (archive_has env kw t w' \<or> a, snd (in_download_archive env kw t w'))"
  by (cases "in_download_archive env kw t w'")
     (auto simp: archive_has_def split: option.splits bool.splits)

lemma not_truthy_archive_has:
  "\<not> truthy (download_archive kw) \<Longrightarrow> \<not> archive_has env kw t w"
  by (simp add: archive_has_def in_download_archive_def)

lemma already_downloaded_closed:
  "fst (already_downloaded env kw t ttl f w) =
     (if (if flac kw \<and> can_convert f \<and> isfile w f \<and> \<not> overwrite kw then False
          else archive_has env kw t w \<or>
               (\<not> overwrite kw \<and>
                (isfile w f \<or> (flac kw \<and> can_convert f \<and> isfile w (flac_name f)))))
      then (if c_flag kw \<or> remove_flag kw \<or> force_metadata kw then Inr True
            else Inl (SysExit (- 1)))
      else Inr False) \<and>
   files (snd (already_downloaded env kw t ttl f w)) =
     (if overwrite kw
      then files w - {f} - (if flac kw \<and> can_convert f then {flac_name f} else {})
      else files w) \<and>
   archives (snd (already_downloaded env kw t ttl f w)) = archives w"
proof -
  have ah: "archive_has env kw t (os_remove g w') = archive_has env kw t w'" for g w'
    by (rule archive_has_cong) simp
  note defs = already_downloaded_def Let_def isfile_def in_download_archive_case
    in_download_archive_world ah not_truthy_archive_has
  show ?thesis
    using flac_name_neq [of f]
    by (cases "f \<in> files w"; cases "overwrite kw"; cases "flac kw \<and> can_convert f";
        cases "flac_name f \<in> files w"; cases "truthy (download_archive kw)";
        cases "archive_read_fails env"; cases "c_flag kw \<or> remove_flag kw \<or> force_metadata kw")
       (auto simp: defs)
qed




text \<open>
  The answers of \<open>already_downloaded\<close> as the code gives them.  With
  \<open>--overwrite\<close> the target file and (in flac mode, for a convertible name) its
  \<open>.flac\<close> sibling are removed, and the answer depends on the archive alone.  Without
  it no file is removed; the answer is "absent" when, in flac mode, the convertible
  target file is itself on disk; otherwise a target file, a sibling or an archive entry
  makes the track present, and then the call exits with status -1 unless \<open>-c\<close>,
  \<open>--remove\<close> or \<open>--force-metadata\<close> is given.
\<close>

lemma already_downloaded_policy:
  "(overwrite kw \<longrightarrow>
      files (snd (already_downloaded env kw t ttl f w)) =
        files w - {f} - (if flac kw \<and> can_convert f then {flac_name f} else {}) \<and>
      fst (already_downloaded env kw t ttl f w) =
        (if archive_has env kw t w
         then (if c_flag kw \<or> remove_flag kw \<or> force_metadata kw then Inr True
               else Inl (SysExit (- 1)))
         else Inr False)) \<and>
   (\<not> overwrite kw \<longrightarrow>
      files (snd (already_downloaded env kw t ttl f w)) = files w \<and>
      fst (already_downloaded env kw t ttl f w) =
        (if flac kw \<and> can_convert f \<and> isfile w f then Inr False
         else if isfile w f \<or> (flac kw \<and> can_convert f \<and> isfile w (flac_name f)) \<or>
                 archive_has env kw t w
         then (if c_flag kw \<or> remove_flag kw \<or> force_metadata kw then Inr True
               else Inl (SysExit (- 1)))
         else Inr False))"
  using already_downloaded_closed [of env kw t ttl f w] by auto

lemma already_downloaded_policy_example:
  "overwrite (kwargs0\<lparr>overwrite := True\<rparr>) \<and>
   files (snd (already_downloaded env0 (kwargs0\<lparr>overwrite := True\<rparr>) track0 (py ''Title'')
      (py ''Title.mp3'') (world0\<lparr>files := {py ''Title.mp3''}\<rparr>))) = {} \<and>
   fst (already_downloaded env0 (kwargs0\<lparr>overwrite := True\<rparr>) track0 (py ''Title'')
      (py ''Title.mp3'') (world0\<lparr>files := {py ''Title.mp3''}\<rparr>)) = Inr False \<and>
   \<not> overwrite kwargs0 \<and>
   fst (already_downloaded env0 kwargs0 track0 (py ''Title'')
      (py ''Title.mp3'') (world0\<lparr>files := {py ''Title.mp3''}\<rparr>)) = Inl (SysExit (- 1))"
proof -
  have a: "\<not> archive_has env0 (kwargs0\<lparr>overwrite := True\<rparr>) track0 w"
    "\<not> archive_has env0 kwargs0 track0 w" for w
    by (simp_all add: not_truthy_archive_has truthy_def)
  from already_downloaded_policy [of "kwargs0\<lparr>overwrite := True\<rparr>" env0 track0 "py ''Title''"
      "py ''Title.mp3''" "world0\<lparr>files := {py ''Title.mp3''}\<rparr>"]
    already_downloaded_policy [of kwargs0 env0 track0 "py ''Title''"
      "py ''Title.mp3''" "world0\<lparr>files := {py ''Title.mp3''}\<rparr>"] a
  show ?thesis by (simp add: isfile_def)
qed

lemma composed_title_track0:
  "\<not> addtofile kw \<Longrightarrow> \<not> addtimestamp kw \<Longrightarrow> name_format kw = py ''{title}'' \<Longrightarrow>
   composed_title externals0 kw track0 None = Inr (py ''Title'')"
  by (simp add: composed_title_def format_name_def encode_ignore_decode_def is_surrogate_def
      py_def Let_def)

lemma get_filename_track0:
  assumes "\<not> original_name kw" "\<not> addtofile kw" "\<not> addtimestamp kw"
    "name_format kw = py ''{title}''"
  shows "get_filename externals0 kw track0 None False None = Some (Inr (py ''Title.mp3''))"
proof -
  have e: "encode_utf8 (py ''Title'') = Some (py ''Title'')"
    by (rule encode_utf8_ascii) (simp add: py_def)
  have "truncate_title (py ''Title'') (py ''.mp3'') = Some (Inr (py ''Title''))"
    by (rule truncate_title_short [OF e encode_mp3]) (simp add: py_def)
  moreover have "strip_illegal (py ''Title'' @ ascii_lower (py ''.mp3'')) = py ''Title.mp3''"
    by (simp add: strip_illegal_def ascii_lower_def illegal_char_def py_def)
  ultimately show ?thesis
    using assms by (simp add: get_filename_def composed_title_track0)
qed

lemma run_overwrite_archive:
  "download_track externals0 env0
     (kwargs0\<lparr>overwrite := True, c_flag := True, download_archive := Some (py ''a.txt'')\<rparr>)
     track0 None
     (world0\<lparr>files := {py ''Title.mp3''},
             archives := (\<lambda>f. if f = py ''a.txt'' then py ''42'' @ [10] else [])\<rparr>) =
   (Inr (),
    \<lparr>files = {},
     archives = (\<lambda>f. if f = py ''a.txt'' then py ''42'' @ [10] @ py ''42'' @ [10] else []),
     fileToKeep = [],
     trace = [Info (Downloading (py ''Title'')), Call Download_hls, Remove (py ''Title.mp3''),
              ArchiveAppend (py ''a.txt'') (py ''42''),
              Info (AlreadyDownloaded (py ''Title''))]\<rparr>)"
proof -
  let ?kw = "kwargs0\<lparr>overwrite := True, c_flag := True, download_archive := Some (py ''a.txt'')\<rparr>"
  have gf: "get_filename externals0 ?kw track0 None False None = Some (Inr (py ''Title.mp3''))"
    by (rule get_filename_track0) simp_all
  have s42: "str_of_int 42 = py ''42''" by (simp add: str_of_int_def digits.simps py_def)
  have rl: "readlines (py ''42'' @ [10]) = [py ''42'' @ [10]]"
    by (simp add: readlines_def py_def)
  have st: "strip (py ''42'' @ [10]) = py ''42''" by (simp add: strip_def isspace_def py_def)
  have pys: "py ''BLOCK'' \<noteq> py ''ALLOW''" "py ''a.txt'' \<noteq> []"
    "startswith (py ''audio/mpeg'') (py ''audio/mp4'') = False"
    by (simp_all add: py_def)
  show ?thesis
    by (simp add: download_track_def select_source_def download_hls_def finish_track_def
        already_downloaded_def in_download_archive_def record_download_archive_def
        os_remove_def emit_def isfile_def truthy_def Let_def gf s42 rl st pys
        encode_ignore_decode_def is_surrogate_def world0_def fun_eq_iff)
      (simp add: py_def)
qed

text \<open>
  C3.  The file \<open>Title.mp3\<close> is on disk, the archive holds the id 42 of the track,
  and \<open>--overwrite\<close> and \<open>-c\<close> are given.  \<open>already_downloaded\<close> removes the
  file and answers \<open>True\<close>, so \<open>download_track\<close> reports the track as already
  downloaded: the old file is gone and nothing is acquired in its place (the trace has
  no transfer of audio).  The two tests on files set the answer back to "absent" after
  removing; the test on the archive, which follows them, sets it to "present" without
  looking at the flag.
\<close>

theorem already_downloaded_overwrite_archive:
  "overwrite (kwargs0\<lparr>overwrite := True, c_flag := True, download_archive := Some (py ''a.txt'')\<rparr>) \<and>
   isfile (world0\<lparr>files := {py ''Title.mp3''},
                  archives := (\<lambda>f. if f = py ''a.txt'' then py ''42'' @ [10] else [])\<rparr>)
     (py ''Title.mp3'') \<and>
   fst (already_downloaded env0
      (kwargs0\<lparr>overwrite := True, c_flag := True, download_archive := Some (py ''a.txt'')\<rparr>)
      track0 (py ''Title'') (py ''Title.mp3'')
      (world0\<lparr>files := {py ''Title.mp3''},
              archives := (\<lambda>f. if f = py ''a.txt'' then py ''42'' @ [10] else [])\<rparr>)) = Inr True \<and>
   files (snd (already_downloaded env0
      (kwargs0\<lparr>overwrite := True, c_flag := True, download_archive := Some (py ''a.txt'')\<rparr>)
      track0 (py ''Title'') (py ''Title.mp3'')
      (world0\<lparr>files := {py ''Title.mp3''},
              archives := (\<lambda>f. if f = py ''a.txt'' then py ''42'' @ [10] else [])\<rparr>))) = {} \<and>
   fst (download_track externals0 env0
      (kwargs0\<lparr>overwrite := True, c_flag := True, download_archive := Some (py ''a.txt'')\<rparr>)
      track0 None
      (world0\<lparr>files := {py ''Title.mp3''},
              archives := (\<lambda>f. if f = py ''a.txt'' then py ''42'' @ [10] else [])\<rparr>)) = Inr () \<and>
   files (snd (download_track externals0 env0
      (kwargs0\<lparr>overwrite := True, c_flag := True, download_archive := Some (py ''a.txt'')\<rparr>)
      track0 None
      (world0\<lparr>files := {py ''Title.mp3''},
              archives := (\<lambda>f. if f = py ''a.txt'' then py ''42'' @ [10] else [])\<rparr>))) = {} \<and>
   trace (snd (download_track externals0 env0
      (kwargs0\<lparr>overwrite := True, c_flag := True, download_archive := Some (py ''a.txt'')\<rparr>)
      track0 None
      (world0\<lparr>files := {py ''Title.mp3''},
              archives := (\<lambda>f. if f = py ''a.txt'' then py ''42'' @ [10] else [])\<rparr>))) =
     [Info (Downloading (py ''Title'')), Call Download_hls, Remove (py ''Title.mp3''),
      ArchiveAppend (py ''a.txt'') (py ''42''), Info (AlreadyDownloaded (py ''Title''))]"
proof -
  let ?kw = "kwargs0\<lparr>overwrite := True, c_flag := True, download_archive := Some (py ''a.txt'')\<rparr>"
  let ?w = "world0\<lparr>files := {py ''Title.mp3''},
              archives := (\<lambda>f. if f = py ''a.txt'' then py ''42'' @ [10] else [])\<rparr>"
  have "archives ?w (py ''a.txt'') = concat (map (\<lambda>i. str_of_int i @ [10]) [42])"
    by (simp add: str_of_int_def digits.simps py_def)
  then have "in_download_archive env0 ?kw track0 ?w = (Some (track_id track0 \<in> set [42]), ?w)"
    by (intro in_download_archive_ids [where f = "py ''a.txt''"]) (simp_all add: py_def)
  then have "archive_has env0 ?kw track0 ?w" by (simp add: archive_has_def)
  with already_downloaded_closed [of env0 ?kw track0 "py ''Title''" "py ''Title.mp3''" ?w]
  show ?thesis by (simp add: isfile_def run_overwrite_archive)
qed




section \<open>The traces of the parts\<close>

lemma already_downloaded_trace_eq:
  "trace (snd (already_downloaded env kw t ttl f w)) =
     trace w @
     (if isfile w f \<and> overwrite kw then [Remove f] else []) @
     (if flac kw \<and> can_convert f \<and> isfile w (flac_name f) \<and> overwrite kw
      then [Remove (flac_name f)] else []) @
     (if truthy (download_archive kw) \<and> archive_read_fails env
      then [Error ArchiveReadError] else []) @
     (if fst (already_downloaded env kw t ttl f w) = Inl (SysExit (- 1))
      then [Error (AlreadyExists ttl), Error ExitingRunAgain] else [])"
proof -
  note defs = already_downloaded_def Let_def isfile_def in_download_archive_case
    in_download_archive_world
  show ?thesis
    using flac_name_neq [of f]
    by (cases "f \<in> files w"; cases "overwrite kw"; cases "flac kw \<and> can_convert f";
        cases "flac_name f \<in> files w"; cases "truthy (download_archive kw)";
        cases "archive_read_fails env"; cases "c_flag kw \<or> remove_flag kw \<or> force_metadata kw")
       (simp_all add: defs)
qed



lemma already_downloaded_trace:
  "\<exists>es. trace (snd (already_downloaded env kw t ttl f w)) = trace w @ es \<and> list_all quiet es"
proof -
  let ?es = "(if isfile w f \<and> overwrite kw then [Remove f] else []) @
     (if flac kw \<and> can_convert f \<and> isfile w (flac_name f) \<and> overwrite kw
      then [Remove (flac_name f)] else []) @
     (if truthy (download_archive kw) \<and> archive_read_fails env
      then [Error ArchiveReadError] else []) @
     (if fst (already_downloaded env kw t ttl f w) = Inl (SysExit (- 1))
      then [Error (AlreadyExists ttl), Error ExitingRunAgain] else [])"
  have "list_all quiet ?es" by simp
  with already_downloaded_trace_eq [of env kw t ttl f w] show ?thesis by blast
qed


lemma already_downloaded_files: "files (snd (already_downloaded env kw t ttl f w)) \<subseteq> files w"
  by (subst already_downloaded_closed [THEN conjunct2, THEN conjunct1]) auto

lemma already_downloaded_archives:
  "archives (snd (already_downloaded env kw t ttl f w)) = archives w"
  by (rule already_downloaded_closed [THEN conjunct2, THEN conjunct2])

lemma already_downloaded_settled:
  assumes "settled env kw t w"
  shows "fst (already_downloaded env kw t ttl f w) \<noteq> Inr False"
proof -
  from assms have a: "archive_has env kw t w" and c: "\<not> (flac kw \<and> can_convert f \<and> isfile w f)"
    by (auto simp: settled_def isfile_def)
  from c have "(flac kw \<and> can_convert f \<and> isfile w f \<and> \<not> overwrite kw) = False" by blast
  with a show ?thesis
    by (subst already_downloaded_closed [THEN conjunct1]) simp
qed

lemma already_downloaded_step:
  assumes "already_downloaded env kw t ttl f w = (r, w')"
  shows "\<exists>es. trace w' = trace w @ es \<and> list_all quiet es"
    and "files w' \<subseteq> files w" and "archives w' = archives w"
    and "settled env kw t w \<Longrightarrow> r \<noteq> Inr False"
  using already_downloaded_trace [of env kw t ttl f w] already_downloaded_files [of env kw t ttl f w]
    already_downloaded_archives [of env kw t ttl f w] already_downloaded_settled [of env kw t w ttl f]
  by (simp_all add: assms)

lemma settled_cong:
  "settled env kw t w \<Longrightarrow> archives w' = archives w \<Longrightarrow> files w' \<subseteq> files w \<Longrightarrow>
   settled env kw t w'"
  using archive_has_cong [of w' w env kw t] by (auto simp: settled_def)

lemma settled_emit [simp]: "settled env kw t (emit es w) = settled env kw t w"
  using archive_has_cong [of "emit es w" w env kw t] by (simp add: settled_def)

lemma get_track_m3u8_step:
  assumes "get_track_m3u8 env t aac w = (r, w')"
  shows "\<exists>es. trace w' = trace w @ es \<and> list_all quiet es"
    and "files w' = files w" and "archives w' = archives w"
  using assms by (auto simp: get_track_m3u8_def split: list.splits)

lemma download_hls_step:
  assumes run: "download_hls X env kw t ttl pl w = (r, w')"
  shows "\<exists>es. trace w' = trace w @ Call Download_hls # es \<and>
              list_all (\<lambda>e. quiet e \<or> is_download e) es \<and>
              (settled env kw t w \<longrightarrow> list_all quiet es)"
    and "archives w' = archives w"
    and "settled env kw t w \<Longrightarrow> files w' \<subseteq> files w"
proof -
  let ?w1 = "emit [Call Download_hls] w"
  let ?aac = "if onlymp3 kw then False
              else list_ex (\<lambda>t. startswith (mime_type t) (py ''audio/mp4'')) (transcodings t)"
  let ?goal = "(\<exists>es. trace w' = trace w @ Call Download_hls # es \<and>
              list_all (\<lambda>e. quiet e \<or> is_download e) es \<and>
              (settled env kw t w \<longrightarrow> list_all quiet es)) \<and>
          archives w' = archives w \<and> (settled env kw t w \<longrightarrow> files w' \<subseteq> files w)"
  have ?goal
  proof (cases "get_filename X kw t None ?aac pl")
    case None
    with run show ?thesis by (auto simp: download_hls_def Let_def)
  next
    case (Some g)
    show ?thesis
    proof (cases g)
      case (Inl e)
      with run Some show ?thesis by (auto simp: download_hls_def Let_def)
    next
      case (Inr fn)
      obtain r2 w2 where ad: "already_downloaded env kw t ttl fn ?w1 = (r2, w2)"
        by (cases "already_downloaded env kw t ttl fn ?w1")
      from already_downloaded_step [OF ad] obtain es2 where
        tr2: "trace w2 = trace ?w1 @ es2" "list_all quiet es2"
        and f2: "files w2 \<subseteq> files ?w1" and a2: "archives w2 = archives ?w1"
        and s2: "settled env kw t ?w1 \<Longrightarrow> r2 \<noteq> Inr False" by blast
      show ?thesis
      proof (cases r2)
        case (Inl e)
        with run Some Inr ad have "w' = w2" by (simp add: download_hls_def Let_def)
        with tr2 f2 a2 show ?thesis by (auto elim: list.pred_mono_strong)
      next
        case r2: (Inr b)
        show ?thesis
        proof (cases b)
          case True
          with run Some Inr ad r2 have "w' = w2" by (simp add: download_hls_def Let_def)
          with tr2 f2 a2 show ?thesis by (auto elim: list.pred_mono_strong)
        next
          case False
          with s2 r2 have ns: "\<not> settled env kw t w" by auto
          obtain r3 w3 where m: "get_track_m3u8 env t ?aac w2 = (r3, w3)"
            by (cases "get_track_m3u8 env t ?aac w2")
          from get_track_m3u8_step [OF m] obtain es3 where
            tr3: "trace w3 = trace w2 @ es3" "list_all quiet es3"
            and a3: "archives w3 = archives w2" by blast
          show ?thesis
          proof (cases r3)
            case None
            with run Some Inr ad r2 False m have "w' = w3" by (simp add: download_hls_def Let_def)
            with tr2 tr3 a2 a3 ns show ?thesis by (auto elim: list.pred_mono_strong)
          next
            case (Some u)
            with run \<open>get_filename X kw t None ?aac pl = Some g\<close> Inr ad r2 False m
            have "\<exists>es4. trace w' = trace w3 @ es4 \<and> list_all (\<lambda>e. quiet e \<or> is_download e) es4"
              and "archives w' = archives w3"
              by (auto simp: download_hls_def Let_def)
            with tr2 tr3 a2 a3 ns show ?thesis by (auto elim: list.pred_mono_strong)
          qed
        qed
      qed
    qed
  qed
  then show "\<exists>es. trace w' = trace w @ Call Download_hls # es \<and>
              list_all (\<lambda>e. quiet e \<or> is_download e) es \<and>
              (settled env kw t w \<longrightarrow> list_all quiet es)"
    and "archives w' = archives w"
    and "settled env kw t w \<Longrightarrow> files w' \<subseteq> files w" by blast+
qed


lemma download_original_file_step:
  assumes run: "download_original_file X env kw t ttl pl w = (r, w')"
  shows "\<exists>es. trace w' = trace w @ Call Download_original_file # es \<and>
              list_all (\<lambda>e. quiet e \<or> is_download e) es \<and>
              (settled env kw t w \<longrightarrow> list_all quiet es)"
    and "archives w' = archives w"
    and "settled env kw t w \<Longrightarrow> files w' \<subseteq> files w"
proof -
  let ?w1 = "emit [Call Download_original_file, Info DownloadingOriginal,
                    GetOriginalLink (track_id t)] w"
  let ?w2 = "emit [HttpGetOriginal] ?w1"
  let ?goal = "(\<exists>es. trace w' = trace w @ Call Download_original_file # es \<and>
              list_all (\<lambda>e. quiet e \<or> is_download e) es \<and>
              (settled env kw t w \<longrightarrow> list_all quiet es)) \<and>
          archives w' = archives w \<and> (settled env kw t w \<longrightarrow> files w' \<subseteq> files w)"
  note d = download_original_file_def Let_def
  have ?goal
  proof (cases "\<not> original_url env \<or> status_code env = 401 \<or> status_code env = 404")
    case True
    then consider "\<not> original_url env" | "original_url env" "status_code env = 401"
      | "original_url env" "status_code env = 404" by auto
    then show ?thesis
    proof cases
      case 1
      with run show ?thesis by (auto simp: d)
    next
      case 2
      with run show ?thesis by (auto simp: d)
    next
      case 3
      with run show ?thesis by (auto simp: d)
    qed
  next
    case False
    then have go: "original_url env" "status_code env \<noteq> 401" "status_code env \<noteq> 404"
      by auto
    show ?thesis
    proof (cases "disposition_filename env")
      case None
      with run go show ?thesis by (auto simp: d)
    next
      case (Some dn)
      let ?f0 = "fst (splitext dn) @
                 (if truthy (guessed_extension env) then the (guessed_extension env)
                  else snd (splitext dn))"
      show ?thesis
      proof (cases "get_filename X kw t (Some ?f0) False pl")
        case None
        with run go Some show ?thesis by (auto simp: d)
      next
        case gf: (Some g)
        show ?thesis
        proof (cases g)
          case (Inl e)
          with run go Some gf show ?thesis by (auto simp: d)
        next
          case (Inr fn)
          obtain r2 w2 where ad: "already_downloaded env kw t ttl fn ?w2 = (r2, w2)"
            by (cases "already_downloaded env kw t ttl fn ?w2")
          from already_downloaded_step [OF ad] obtain es2 where
            tr2: "trace w2 = trace ?w2 @ es2" "list_all quiet es2"
            and f2: "files w2 \<subseteq> files ?w2" and a2: "archives w2 = archives ?w2"
            and s2: "settled env kw t ?w2 \<Longrightarrow> r2 \<noteq> Inr False" by blast
          show ?thesis
          proof (cases "r2 = Inr False")
            case False
            with run go Some gf Inr ad have "w' = w2"
              by (cases r2) (auto simp: d split: bool.splits)
            with tr2 f2 a2 show ?thesis by (auto elim: list.pred_mono_strong)
          next
            case True
            with s2 have ns: "\<not> settled env kw t w" by auto
            from run go Some gf Inr ad True
            have "\<exists>es4. trace w' = trace w2 @ es4 \<and> list_all (\<lambda>e. quiet e \<or> is_download e) es4"
              and "archives w' = archives w2"
              by (auto simp: d split: option.splits if_splits)
            with tr2 a2 ns show ?thesis by (auto elim: list.pred_mono_strong)
          qed
        qed
      qed
    qed
  qed
  then show "\<exists>es. trace w' = trace w @ Call Download_original_file # es \<and>
              list_all (\<lambda>e. quiet e \<or> is_download e) es \<and>
              (settled env kw t w \<longrightarrow> list_all quiet es)"
    and "archives w' = archives w"
    and "settled env kw t w \<Longrightarrow> files w' \<subseteq> files w" by blast+
qed

lemma record_download_archive_fields:
  "trace (record_download_archive env kw t w) = trace w @ record_events env kw t"
  "files (record_download_archive env kw t w) = files w"
  "archives (record_download_archive env kw t w) =
     (if truthy (download_archive kw) \<and> \<not> archive_write_fails env
      then (archives w)(the (download_archive kw) :=
             archives w (the (download_archive kw)) @ str_of_int (track_id t) @ [10])
      else archives w)"
  by (simp_all add: record_download_archive_def record_events_def Let_def)

lemma finish_track_closed:
  "trace (snd (finish_track env kw t ttl fn al w)) =
     trace w @ record_events env kw t @
     (if al \<and> \<not> force_metadata kw then [Info (AlreadyDownloaded ttl)]
      else if \<not> isfile w fn then [Error (ErrorDownloading fn), Error Exiting]
      else (if taggable fn
            then SetMetadata fn # (if set_metadata_raises env then [Error TagError] else [])
            else [Error NoTagging]) @
           Utime fn # (if utime_fails env then [Error UtimeError] else []) @
           [Info (Downloaded fn)])"
  "fst (finish_track env kw t ttl fn al w) =
     (if al \<and> \<not> force_metadata kw then Inr ()
      else if \<not> isfile w fn then Inl (SysExit (- 1)) else Inr ())"
  "files (snd (finish_track env kw t ttl fn al w)) = files w"
  "archives (snd (finish_track env kw t ttl fn al w)) =
     (if truthy (download_archive kw) \<and> \<not> archive_write_fails env
      then (archives w)(the (download_archive kw) :=
             archives w (the (download_archive kw)) @ str_of_int (track_id t) @ [10])
      else archives w)"
proof -
  note defs = finish_track_def Let_def isfile_def taggable_def try_set_metadata_def
    try_utime_def record_download_archive_fields
  show "trace (snd (finish_track env kw t ttl fn al w)) =
     trace w @ record_events env kw t @
     (if al \<and> \<not> force_metadata kw then [Info (AlreadyDownloaded ttl)]
      else if \<not> isfile w fn then [Error (ErrorDownloading fn), Error Exiting]
      else (if taggable fn
            then SetMetadata fn # (if set_metadata_raises env then [Error TagError] else [])
            else [Error NoTagging]) @
           Utime fn # (if utime_fails env then [Error UtimeError] else []) @
           [Info (Downloaded fn)])"
    by (cases "remove_flag kw"; cases "al \<and> \<not> force_metadata kw"; cases "fn \<in> files w";
        cases "taggable fn"; cases "set_metadata_raises env"; cases "utime_fails env")
       (simp_all add: defs)
  show "fst (finish_track env kw t ttl fn al w) =
     (if al \<and> \<not> force_metadata kw then Inr ()
      else if \<not> isfile w fn then Inl (SysExit (- 1)) else Inr ())"
    by (cases "remove_flag kw"; cases "al \<and> \<not> force_metadata kw"; cases "fn \<in> files w")
       (simp_all add: defs)
  show "files (snd (finish_track env kw t ttl fn al w)) = files w"
    by (cases "remove_flag kw"; cases "al \<and> \<not> force_metadata kw"; cases "fn \<in> files w";
        cases "taggable fn"; cases "set_metadata_raises env"; cases "utime_fails env")
       (simp_all add: defs)
  show "archives (snd (finish_track env kw t ttl fn al w)) =
     (if truthy (download_archive kw) \<and> \<not> archive_write_fails env
      then (archives w)(the (download_archive kw) :=
             archives w (the (download_archive kw)) @ str_of_int (track_id t) @ [10])
      else archives w)"
    by (cases "remove_flag kw"; cases "al \<and> \<not> force_metadata kw"; cases "fn \<in> files w";
        cases "taggable fn"; cases "set_metadata_raises env"; cases "utime_fails env")
       (simp_all add: defs)
qed

lemma calls_append [simp]: "calls (es @ es') = calls es @ calls es'"
  by (induction es rule: calls.induct) simp_all

lemma calls_quiet: "list_all (\<lambda>e. quiet e \<or> is_download e) es \<Longrightarrow> calls es = []"
  by (induction es rule: calls.induct) simp_all

lemma quiet_no_download: "quiet e \<Longrightarrow> \<not> is_download e"
  by (cases e) simp_all

lemma record_events_quiet: "list_all quiet (record_events env kw t)"
  by (simp add: record_events_def)

lemma select_source_fallback:
  assumes "(if only_original kw
            then (Inr None, emit [Info (NoOriginalAvailable ttl)] w1)
            else (case download_hls X env kw t ttl pl w1 of
                    (Inl e, w2) \<Rightarrow> (Inl e, w2)
                  | (Inr r, w2) \<Rightarrow> (Inr (Some r), w2))) = (r, w')"
  shows "\<exists>es. trace w' = trace w1 @ es \<and>
           list_all (\<lambda>e. quiet e \<or> is_download e \<or> e \<in> range Call) es \<and>
           (settled env kw t w1 \<longrightarrow> list_all (\<lambda>e. \<not> is_download e) es) \<and>
           (calls es = [] \<or> calls es = [Download_hls]) \<and>
           archives w' = archives w1"
proof (cases "only_original kw")
  case True
  with assms show ?thesis by auto
next
  case False
  obtain r2 w2 where h: "download_hls X env kw t ttl pl w1 = (r2, w2)"
    by (cases "download_hls X env kw t ttl pl w1")
  from download_hls_step [OF h] obtain es where
    es: "trace w2 = trace w1 @ Call Download_hls # es"
      "list_all (\<lambda>e. quiet e \<or> is_download e) es"
      "settled env kw t w1 \<longrightarrow> list_all quiet es"
    and a: "archives w2 = archives w1" by blast
  from assms False h have w': "w' = w2" by (cases r2) auto
  have "list_all (\<lambda>e. quiet e \<or> is_download e \<or> e \<in> range Call) (Call Download_hls # es)"
    using es(2) by (auto elim: list.pred_mono_strong)
  moreover have "settled env kw t w1 \<longrightarrow> list_all (\<lambda>e. \<not> is_download e) (Call Download_hls # es)"
    using es(3) by (auto elim: list.pred_mono_strong dest: quiet_no_download)
  moreover have "calls (Call Download_hls # es) = [Download_hls]"
    using es(2) by (simp add: calls_quiet)
  ultimately show ?thesis using es(1) a w' by blast
qed

lemma select_source_step:
  assumes run: "select_source X env kw t ttl pl w = (r, w')"
  shows "\<exists>es. trace w' = trace w @ es \<and>
           list_all (\<lambda>e. quiet e \<or> is_download e \<or> e \<in> range Call) es \<and>
           (settled env kw t w \<longrightarrow> list_all (\<lambda>e. \<not> is_download e) es) \<and>
           (if downloadable t \<and> has_downloads_left t \<and> \<not> onlymp3 kw \<and> \<not> no_original kw
            then calls es = [Download_original_file] \<or>
                 calls es = [Download_original_file, Download_hls]
            else calls es = [] \<or> calls es = [Download_hls]) \<and>
           archives w' = archives w"
proof (cases "downloadable t \<and> has_downloads_left t \<and> \<not> onlymp3 kw \<and> \<not> no_original kw")
  case False
  with run have "(if only_original kw
            then (Inr None, emit [Info (NoOriginalAvailable ttl)] w)
            else (case download_hls X env kw t ttl pl w of
                    (Inl e, w2) \<Rightarrow> (Inl e, w2)
                  | (Inr r, w2) \<Rightarrow> (Inr (Some r), w2))) = (r, w')"
    by (auto simp: select_source_def)
  from select_source_fallback [OF this] False show ?thesis by auto
next
  case True
  obtain r1 w1 where o: "download_original_file X env kw t ttl pl w = (r1, w1)"
    by (cases "download_original_file X env kw t ttl pl w")
  from download_original_file_step [OF o] obtain es1 where
    es1: "trace w1 = trace w @ Call Download_original_file # es1"
      "list_all (\<lambda>e. quiet e \<or> is_download e) es1"
      "settled env kw t w \<longrightarrow> list_all quiet es1"
    and a1: "archives w1 = archives w"
    and f1: "settled env kw t w \<Longrightarrow> files w1 \<subseteq> files w" by blast
  have p1: "list_all (\<lambda>e. quiet e \<or> is_download e \<or> e \<in> range Call)
      (Call Download_original_file # es1)"
    using es1(2) by (auto elim: list.pred_mono_strong)
  have n1: "settled env kw t w \<longrightarrow>
      list_all (\<lambda>e. \<not> is_download e) (Call Download_original_file # es1)"
    using es1(3) by (auto elim: list.pred_mono_strong dest: quiet_no_download)
  have c1: "calls (Call Download_original_file # es1) = [Download_original_file]"
    using es1(2) by (simp add: calls_quiet)
  show ?thesis
  proof (cases "\<exists>b. r1 = Inr (None, b)")
    case False
    with run True o have "w' = w1"
      by (cases r1) (auto simp: select_source_def split: option.splits)
    with es1(1) p1 n1 c1 a1 True show ?thesis by (intro exI [of _ "Call Download_original_file # es1"]) simp
  next
    case nf: True
    with run \<open>downloadable t \<and> has_downloads_left t \<and> \<not> onlymp3 kw \<and> \<not> no_original kw\<close> o
    have "(if only_original kw
            then (Inr None, emit [Info (NoOriginalAvailable ttl)] w1)
            else (case download_hls X env kw t ttl pl w1 of
                    (Inl e, w2) \<Rightarrow> (Inl e, w2)
                  | (Inr r, w2) \<Rightarrow> (Inr (Some r), w2))) = (r, w')"
      by (auto simp: select_source_def)
    from select_source_fallback [OF this] obtain es2 where
      es2: "trace w' = trace w1 @ es2"
        "list_all (\<lambda>e. quiet e \<or> is_download e \<or> e \<in> range Call) es2"
        "settled env kw t w1 \<longrightarrow> list_all (\<lambda>e. \<not> is_download e) es2"
        "calls es2 = [] \<or> calls es2 = [Download_hls]"
      and a2: "archives w' = archives w1" by blast
    have s1: "settled env kw t w \<Longrightarrow> settled env kw t w1"
      using a1 f1 by (blast intro: settled_cong)
    let ?es = "(Call Download_original_file # es1) @ es2"
    have "trace w' = trace w @ ?es" using es1(1) es2(1) by simp
    moreover have "list_all (\<lambda>e. quiet e \<or> is_download e \<or> e \<in> range Call) ?es"
      using p1 es2(2) by simp
    moreover have "settled env kw t w \<longrightarrow> list_all (\<lambda>e. \<not> is_download e) ?es"
      using n1 es2(3) s1 by simp
    moreover have "calls ?es = [Download_original_file] \<or>
        calls ?es = [Download_original_file, Download_hls]"
      using c1 es2(4) by (simp only: calls_append) auto
    ultimately show ?thesis
      using a1 a2 \<open>downloadable t \<and> has_downloads_left t \<and> \<not> onlymp3 kw \<and> \<not> no_original kw\<close>
      by (intro exI [of _ ?es]) simp
  qed
qed

lemma finish_track_trace:
  "trace (snd (finish_track env kw t ttl fn al w)) =
     trace w @ finish_events env kw t ttl fn al (isfile w fn)"
  by (simp add: finish_track_closed(1) finish_events_def)

lemma calls_finish_events [simp]: "calls (finish_events env kw t ttl fn al on) = []"
  by (simp add: finish_events_def record_events_def)


lemma download_track_step:
  assumes "streamable t" and "policy t \<noteq> py ''BLOCK''"
  shows "\<exists>es fin.
     trace (snd (download_track X env kw t pl w)) =
       trace w @ Info (Downloading (encode_ignore_decode (title t))) # es @ fin \<and>
     list_all (\<lambda>e. quiet e \<or> is_download e \<or> e \<in> range Call) es \<and>
     (settled env kw t w \<longrightarrow> list_all (\<lambda>e. \<not> is_download e) es) \<and>
     (if downloadable t \<and> has_downloads_left t \<and> \<not> onlymp3 kw \<and> \<not> no_original kw
      then calls es = [Download_original_file] \<or>
           calls es = [Download_original_file, Download_hls]
      else calls es = [] \<or> calls es = [Download_hls]) \<and>
     ((fin = [] \<and> archives (snd (download_track X env kw t pl w)) = archives w) \<or>
      (\<exists>fn al on.
         fin = finish_events env kw t (encode_ignore_decode (title t)) fn al on \<and>
         fst (download_track X env kw t pl w) =
           (if al \<and> \<not> force_metadata kw then Inr ()
            else if \<not> on then Inl (SysExit (- 1)) else Inr ()) \<and>
         archives (snd (download_track X env kw t pl w)) =
           (if truthy (download_archive kw) \<and> \<not> archive_write_fails env
            then (archives w)(the (download_archive kw) :=
                   archives w (the (download_archive kw)) @ str_of_int (track_id t) @ [10])
            else archives w)))"
proof -
  let ?ttl = "encode_ignore_decode (title t)"
  let ?w1 = "emit [Info (Downloading ?ttl)] w"
  obtain r2 w2 where sel: "select_source X env kw t ?ttl pl ?w1 = (r2, w2)"
    by (cases "select_source X env kw t ?ttl pl ?w1")
  from select_source_step [OF sel] obtain es where
    es: "trace w2 = trace ?w1 @ es"
      "list_all (\<lambda>e. quiet e \<or> is_download e \<or> e \<in> range Call) es"
      "settled env kw t ?w1 \<longrightarrow> list_all (\<lambda>e. \<not> is_download e) es"
      "if downloadable t \<and> has_downloads_left t \<and> \<not> onlymp3 kw \<and> \<not> no_original kw
       then calls es = [Download_original_file] \<or>
            calls es = [Download_original_file, Download_hls]
       else calls es = [] \<or> calls es = [Download_hls]"
    and a2: "archives w2 = archives ?w1" by blast
  have dt: "download_track X env kw t pl w =
      (case (r2, w2) of
         (Inl e, w2) \<Rightarrow> (Inl e, w2)
       | (Inr None, w2) \<Rightarrow> (Inr (), w2)
       | (Inr (Some (filename, is_already_downloaded)), w2) \<Rightarrow>
           finish_track env kw t ?ttl filename is_already_downloaded w2)"
    using assms sel by (simp add: download_track_def Let_def)
  have tr: "trace w2 = trace w @ Info (Downloading ?ttl) # es" using es(1) by simp
  have st: "settled env kw t w \<longrightarrow> list_all (\<lambda>e. \<not> is_download e) es" using es(3) by simp
  show ?thesis
  proof (cases "\<exists>fn al. r2 = Inr (Some (fn, al))")
    case False
    then have "snd (download_track X env kw t pl w) = w2"
      unfolding dt by (cases r2) (auto split: option.splits)
    with tr es(2,4) st a2 show ?thesis
      by (intro exI [of _ es] exI [of _ "[]"]) simp
  next
    case True
    then obtain fn al where r2: "r2 = Inr (Some (fn, al))" by blast
    then have dt': "download_track X env kw t pl w = finish_track env kw t ?ttl fn al w2"
      unfolding dt by simp
    let ?fin = "finish_events env kw t ?ttl fn al (isfile w2 fn)"
    have "trace (snd (download_track X env kw t pl w)) =
        trace w @ Info (Downloading ?ttl) # es @ ?fin"
      unfolding dt' finish_track_trace tr by simp
    moreover have "fst (download_track X env kw t pl w) =
           (if al \<and> \<not> force_metadata kw then Inr ()
            else if \<not> isfile w2 fn then Inl (SysExit (- 1)) else Inr ())"
      unfolding dt' by (rule finish_track_closed(2))
    moreover have "archives (snd (download_track X env kw t pl w)) =
           (if truthy (download_archive kw) \<and> \<not> archive_write_fails env
            then (archives w)(the (download_archive kw) :=
                   archives w (the (download_archive kw)) @ str_of_int (track_id t) @ [10])
            else archives w)"
      unfolding dt' finish_track_closed(4) a2 by simp
    ultimately have "\<exists>fn' al' on.
         ?fin = finish_events env kw t ?ttl fn' al' on \<and>
         fst (download_track X env kw t pl w) =
           (if al' \<and> \<not> force_metadata kw then Inr ()
            else if \<not> on then Inl (SysExit (- 1)) else Inr ()) \<and>
         archives (snd (download_track X env kw t pl w)) =
           (if truthy (download_archive kw) \<and> \<not> archive_write_fails env
            then (archives w)(the (download_archive kw) :=
                   archives w (the (download_archive kw)) @ str_of_int (track_id t) @ [10])
            else archives w)"
      and "trace (snd (download_track X env kw t pl w)) =
        trace w @ Info (Downloading ?ttl) # es @ ?fin" by blast+
    with es(2,4) st show ?thesis
      by - (rule exI [of _ es], rule exI [of _ ?fin], blast)
  qed
qed

lemma new_events_eq: "trace w' = trace w @ es \<Longrightarrow> new_events w w' = es"
  by (simp add: new_events_def)

lemma composed_title_Title:
  "title t = py ''Title'' \<Longrightarrow> \<not> addtofile kw \<Longrightarrow> \<not> addtimestamp kw \<Longrightarrow>
   name_format kw = py ''{title}'' \<Longrightarrow>
   composed_title externals0 kw t None = Inr (py ''Title'')"
  by (simp add: composed_title_def format_name_def encode_ignore_decode_def is_surrogate_def
      Let_def) (simp add: py_def)

lemma get_filename_Title:
  assumes "title t = py ''Title''" "\<not> original_name kw" "\<not> addtofile kw" "\<not> addtimestamp kw"
    "name_format kw = py ''{title}''"
  shows "get_filename externals0 kw t None False None = Some (Inr (py ''Title.mp3''))"
proof -
  have e: "encode_utf8 (py ''Title'') = Some (py ''Title'')"
    by (rule encode_utf8_ascii) (simp add: py_def)
  have "truncate_title (py ''Title'') (py ''.mp3'') = Some (Inr (py ''Title''))"
    by (rule truncate_title_short [OF e encode_mp3]) (simp add: py_def)
  moreover have "strip_illegal (py ''Title'' @ ascii_lower (py ''.mp3'')) = py ''Title.mp3''"
    by (simp add: strip_illegal_def ascii_lower_def illegal_char_def py_def)
  ultimately show ?thesis
    using assms by (simp add: get_filename_def composed_title_Title)
qed

lemma run_no_original:
  "download_track externals0 env0 (kwargs0\<lparr>no_original := True\<rparr>)
     (track0\<lparr>downloadable := True, has_downloads_left := True\<rparr>) None world0 =
   (Inr (),
    \<lparr>files = {py ''Title.mp3''}, archives = (\<lambda>f. []), fileToKeep = [],
     trace = [Info (Downloading (py ''Title'')), Call Download_hls, HttpGetManifest (py ''u''),
              FfmpegRemux (py ''Title.mp3''), SetMetadata (py ''Title.mp3''),
              Utime (py ''Title.mp3''), Info (Downloaded (py ''Title.mp3''))]\<rparr>)"
proof -
  let ?kw = "kwargs0\<lparr>no_original := True\<rparr>"
  let ?t = "track0\<lparr>downloadable := True, has_downloads_left := True\<rparr>"
  have gf: "get_filename externals0 ?kw ?t None False None = Some (Inr (py ''Title.mp3''))"
    by (rule get_filename_Title) simp_all
  have pys: "py ''BLOCK'' \<noteq> py ''ALLOW''"
    "startswith (py ''audio/mpeg'') (py ''audio/mp4'') = False"
    "endswith (py ''Title.mp3'') (py ''.mp3'')"
    by (simp_all add: py_def endswith_def)
  show ?thesis
    by (simp add: download_track_def select_source_def download_hls_def finish_track_def
        already_downloaded_def in_download_archive_def record_download_archive_def
        get_track_m3u8_def try_set_metadata_def try_utime_def
        os_remove_def emit_def isfile_def truthy_def Let_def gf pys
        encode_ignore_decode_def is_surrogate_def world0_def)
      (simp add: py_def)
qed

text \<open>
  C4.  For a streamable track that is not blocked, the calls of the two acquiring
  functions during \<open>download_track\<close> are: when the track is downloadable, has
  downloads left, and neither \<open>--onlymp3\<close> nor \<open>--no-original\<close> is given, first
  \<open>download_original_file\<close> and then at most \<open>download_hls\<close>; otherwise
  \<open>download_hls\<close> at most, and never \<open>download_original_file\<close>.
\<close>

theorem original_attempt_iff:
  assumes "streamable t" and "policy t \<noteq> py ''BLOCK''"
  shows "if downloadable t \<and> has_downloads_left t \<and> \<not> onlymp3 kw \<and> \<not> no_original kw
         then calls (new_events w (snd (download_track X env kw t pl w))) = [Download_original_file] \<or>
              calls (new_events w (snd (download_track X env kw t pl w))) =
                [Download_original_file, Download_hls]
         else calls (new_events w (snd (download_track X env kw t pl w))) = [] \<or>
              calls (new_events w (snd (download_track X env kw t pl w))) = [Download_hls]"
proof -
  from download_track_step [OF assms, of X env kw pl w] obtain es fin where
    tr: "trace (snd (download_track X env kw t pl w)) =
           trace w @ Info (Downloading (encode_ignore_decode (title t))) # es @ fin"
    and c: "if downloadable t \<and> has_downloads_left t \<and> \<not> onlymp3 kw \<and> \<not> no_original kw
      then calls es = [Download_original_file] \<or>
           calls es = [Download_original_file, Download_hls]
      else calls es = [] \<or> calls es = [Download_hls]"
    and fin: "fin = [] \<or> (\<exists>fn al on.
         fin = finish_events env kw t (encode_ignore_decode (title t)) fn al on)"
    by blast
  from fin have "calls fin = []" by auto
  then have "calls (new_events w (snd (download_track X env kw t pl w))) = calls es"
    using new_events_eq [OF tr] by simp
  with c show ?thesis by simp
qed

theorem original_attempt_iff_witness:
  "streamable (track0\<lparr>downloadable := True, has_downloads_left := True\<rparr>) \<and>
   policy (track0\<lparr>downloadable := True, has_downloads_left := True\<rparr>) \<noteq> py ''BLOCK'' \<and>
   (calls (new_events world0 (snd (download_track externals0 env0 kwargs0
       (track0\<lparr>downloadable := True, has_downloads_left := True\<rparr>) None world0)))
      = [Download_original_file] \<or>
    calls (new_events world0 (snd (download_track externals0 env0 kwargs0
       (track0\<lparr>downloadable := True, has_downloads_left := True\<rparr>) None world0)))
      = [Download_original_file, Download_hls])"
proof -
  let ?t = "track0\<lparr>downloadable := True, has_downloads_left := True\<rparr>"
  have 1: "streamable ?t" by simp
  have 2: "policy ?t \<noteq> py ''BLOCK''" by (simp add: py_def)
  from original_attempt_iff [OF 1 2, of kwargs0 world0 externals0 env0 None] 1 2
  show ?thesis by simp
qed

theorem no_original_no_attempt:
  "downloadable (track0\<lparr>downloadable := True, has_downloads_left := True\<rparr>) \<and>
   has_downloads_left (track0\<lparr>downloadable := True, has_downloads_left := True\<rparr>) \<and>
   streamable (track0\<lparr>downloadable := True, has_downloads_left := True\<rparr>) \<and>
   policy (track0\<lparr>downloadable := True, has_downloads_left := True\<rparr>) = py ''ALLOW'' \<and>
   onlymp3 (kwargs0\<lparr>no_original := True\<rparr>) = False \<and>
   calls (new_events world0 (snd (download_track externals0 env0 (kwargs0\<lparr>no_original := True\<rparr>)
       (track0\<lparr>downloadable := True, has_downloads_left := True\<rparr>) None world0)))
     = [Download_hls]"
  by (simp add: run_no_original new_events_def)














lemma kwargs1_simps [simp]:
  "original_name kwargs1 = False" "addtofile kwargs1 = False" "addtimestamp kwargs1 = False"
  "name_format kwargs1 = py ''{title}''"
  "onlymp3 kwargs1 = False" "no_original kwargs1 = False" "only_original kwargs1 = False"
  "remove_flag kwargs1 = False" "force_metadata kwargs1 = False" "c_flag kwargs1 = True"
  "overwrite kwargs1 = False" "flac kwargs1 = False"
  "download_archive kwargs1 = Some (py ''a.txt'')"
  by (simp_all add: kwargs1_def)





end
